theory Spec2Isabelle
  imports Main "HOL-Library.Multiset"
begin

section \<open>The submissions table\<close>

text \<open>
  \<^verbatim>\<open>database.py\<close> keeps the ranking state in one PostgreSQL table:
  \<^verbatim>\<open>
  CREATE TABLE IF NOT EXISTS submissions (
      id UUID PRIMARY KEY,
      user_id VARCHAR(50) NOT NULL,
      problem_id VARCHAR(100) NOT NULL,
      score INTEGER NOT NULL,
      replay_result VARCHAR(50) NOT NULL,
      timestamp TIMESTAMP DEFAULT CURRENT_TIMESTAMP,
      error_details TEXT,
      UNIQUE (user_id, problem_id))
  \<close>
  A row is a record with one field per column. The column \<^verbatim>\<open>id\<close> is the field
  \<open>submission_id\<close> (\<open>id\<close> is HOL's identity function); it holds the text in which a
  query returns the UUID. \<^verbatim>\<open>timestamp\<close> is the only column of the statement that
  may hold NULL (\<open>None\<close>): an explicit NULL is stored as such, the default applies only
  to an omitted column. A time is a count of microseconds. \<^verbatim>\<open>error_details\<close>
  holds the text \<^verbatim>\<open>json.dumps(submission_entry.get("error_details", []))\<close>; the
  model keeps the list that the text encodes. The bounds of the columns are checked
  where a row is written (\<open>excluded_row\<close> below), and \<open>row_in_columns\<close> states them of
  a row.

  The six columns that the leaderboard query selects form the parent record, so that
  the selectors apply to table rows and to leaderboard entries alike.
\<close>

record leaderboard_entry =
  submission_id :: string
  user_id :: string
  problem_id :: string
  score :: int
  replay_result :: string
  timestamp :: "int option"

record submission = leaderboard_entry +
  error_details :: "string list"

text \<open>The table is the list of its rows, in the order in which a scan returns them.\<close>

type_synonym submissions = "submission list"

text \<open>
  \<^verbatim>\<open>init_db\<close>: \<^verbatim>\<open>CREATE TABLE IF NOT EXISTS\<close> makes the empty table where
  there is none (\<open>None\<close>) and leaves an existing table as it is.
\<close>

definition init_db :: "submissions option \<Rightarrow> submissions" where
  "init_db db = (case db of None \<Rightarrow> [] | Some t \<Rightarrow> t)"

text \<open>The two constraints of the table: the primary key and \<^verbatim>\<open>UNIQUE (user_id, problem_id)\<close>.\<close>

definition primary_key :: "submissions \<Rightarrow> bool" where
  "primary_key t = distinct (map submission_id t)"

definition unique_user_problem :: "submissions \<Rightarrow> bool" where
  "unique_user_problem t = distinct (map (\<lambda>r. (user_id r, problem_id r)) t)"

text \<open>The row stored for a pair: the first row of the table with that user and problem.\<close>

definition stored :: "submissions \<Rightarrow> string \<Rightarrow> string \<Rightarrow> submission option" where
  "stored t u p = find (\<lambda>r. user_id r = u \<and> problem_id r = p) t"

section \<open>SQL conditions\<close>

text \<open>
  A condition of SQL is true, false or NULL (\<open>None\<close>); \<^verbatim>\<open>WHERE\<close> lets a row
  through only when it is true. A comparison with a NULL operand is NULL.
\<close>

type_synonym sql_bool = "bool option"

fun sql_or :: "sql_bool \<Rightarrow> sql_bool \<Rightarrow> sql_bool" where
  "sql_or (Some True) _ = Some True"
| "sql_or _ (Some True) = Some True"
| "sql_or (Some False) (Some False) = Some False"
| "sql_or _ _ = None"

fun sql_and :: "sql_bool \<Rightarrow> sql_bool \<Rightarrow> sql_bool" where
  "sql_and (Some False) _ = Some False"
| "sql_and _ (Some False) = Some False"
| "sql_and (Some True) (Some True) = Some True"
| "sql_and _ _ = None"

fun sql_lt :: "int option \<Rightarrow> int option \<Rightarrow> sql_bool" where
  "sql_lt (Some a) (Some b) = Some (a < b)"
| "sql_lt _ _ = None"

definition sql_where :: "sql_bool \<Rightarrow> bool" where
  "sql_where c = (c = Some True)"

section \<open>The values of the statement\<close>

text \<open>
  \<^verbatim>\<open>save_submission(submission_entry: dict)\<close> reads six keys of the dict by
  subscript and \<^verbatim>\<open>error_details\<close> by \<^verbatim>\<open>get\<close>:
  \<^verbatim>\<open>
  (submission_entry["submission_id"], submission_entry["user_id"],
   submission_entry["problem_id"], submission_entry["score"],
   submission_entry["replay_result"], submission_entry["timestamp"],
   json.dumps(submission_entry.get("error_details", [])))
  \<close>
  A key of the dict is absent, or holds \<^verbatim>\<open>None\<close>, or holds a value of the Python
  type that the grader and \<^verbatim>\<open>/submit\<close> give it: \<^verbatim>\<open>str\<close> for the ids and
  the replay result, \<^verbatim>\<open>int\<close> for the score, a naive \<^verbatim>\<open>datetime\<close> for the
  timestamp, a list of \<^verbatim>\<open>str\<close> for the error details. A \<open>char\<close> stands for one
  character of a \<^verbatim>\<open>str\<close>.
\<close>

datatype 'a dict_item = KeyAbsent | PyNone | PyValue 'a

record submission_entry =
  entry_submission_id :: "string dict_item"
  entry_user_id :: "string dict_item"
  entry_problem_id :: "string dict_item"
  entry_score :: "int dict_item"
  entry_replay_result :: "string dict_item"
  entry_timestamp :: "int dict_item"
  entry_error_details :: "string list option"

text \<open>
  Everything that raises inside the \<^verbatim>\<open>try\<close> ends in the \<^verbatim>\<open>except\<close> branch. The
  exceptions are Python's \<^verbatim>\<open>KeyError\<close> for an absent key, psycopg2's
  \<^verbatim>\<open>ValueError\<close> for a string with a NUL character, and the errors of the server:
  a text that is no UUID, a string too long for its column, a score outside
  \<^verbatim>\<open>INTEGER\<close>, NULL in a column that is NOT NULL, a second row with a primary key.
\<close>

datatype db_error =
  KeyError
| ValueError
| InvalidTextRepresentation
| StringDataRightTruncation
| NumericValueOutOfRange
| NotNullViolation
| UniqueViolation

fun and_then :: "'e + 'a \<Rightarrow> ('a \<Rightarrow> 'e + 'b) \<Rightarrow> 'e + 'b" where
  "and_then (Inl e) f = Inl e"
| "and_then (Inr a) f = f a"

definition subscript :: "'a dict_item \<Rightarrow> db_error + 'a option" where
  "subscript item =
     (case item of KeyAbsent \<Rightarrow> Inl KeyError | PyNone \<Rightarrow> Inr None | PyValue v \<Rightarrow> Inr (Some v))"

definition adapt_str :: "string option \<Rightarrow> db_error + string option" where
  "adapt_str v =
     (case v of
        None \<Rightarrow> Inr None
      | Some s \<Rightarrow> if CHR 0x00 \<in> set s then Inl ValueError else Inr (Some s))"

text \<open>
  The column \<^verbatim>\<open>id UUID\<close>. PostgreSQL reads a UUID from 32 hexadecimal digits in
  either case, with an optional hyphen after any group of four digits and optional
  braces around the whole, and keeps the value; a query returns it in lower case, in
  groups of 8, 4, 4, 4 and 12 digits. The stored id is this text, so that two spellings
  of one UUID are one id.
\<close>

definition xdigit :: "char \<Rightarrow> bool" where
  "xdigit c = (c \<in> set ''0123456789abcdefABCDEF'')"

definition tolower :: "char \<Rightarrow> char" where
  "tolower c = (case map_of (zip ''ABCDEF'' ''abcdef'') c of Some d \<Rightarrow> d | None \<Rightarrow> c)"

fun uuid_bytes :: "nat \<Rightarrow> string \<Rightarrow> (string \<times> string) option" where
  "uuid_bytes 0 src = Some ([], src)"
| "uuid_bytes (Suc k) (a # b # src) =
     (if xdigit a \<and> xdigit b
      then (let i = 15 - k;
                src' = (if i mod 2 = 1 \<and> i < 15 \<and> take 1 src = ''-'' then drop 1 src else src)
            in case uuid_bytes k src' of
                 None \<Rightarrow> None
               | Some (digits, rest) \<Rightarrow> Some (tolower a # tolower b # digits, rest))
      else None)"
| "uuid_bytes (Suc k) src = None"

definition uuid_in :: "string \<Rightarrow> string option" where
  "uuid_in s =
     (let braces = (take 1 s = ''{'');
          src = (if braces then drop 1 s else s)
      in case uuid_bytes 16 src of
           None \<Rightarrow> None
         | Some (d, rest) \<Rightarrow>
             if rest = (if braces then ''}'' else [])
             then Some (take 8 d @ ''-'' @ take 4 (drop 8 d) @ ''-'' @ take 4 (drop 12 d)
                        @ ''-'' @ take 4 (drop 16 d) @ ''-'' @ drop 20 d)
             else None)"

definition uuid_column :: "string option \<Rightarrow> db_error + string option" where
  "uuid_column v =
     (case v of
        None \<Rightarrow> Inr None
      | Some s \<Rightarrow> (case uuid_in s of
                    None \<Rightarrow> Inl InvalidTextRepresentation
                  | Some u \<Rightarrow> Inr (Some u)))"

text \<open>
  \<^verbatim>\<open>VARCHAR(n)\<close>: a longer string is an error, unless all it has beyond \<open>n\<close>
  characters are spaces, which are cut off. \<^verbatim>\<open>INTEGER\<close>: 32 bits, signed.
\<close>

definition varchar_column :: "nat \<Rightarrow> string option \<Rightarrow> db_error + string option" where
  "varchar_column n v =
     (case v of
        None \<Rightarrow> Inr None
      | Some s \<Rightarrow>
          if length s \<le> n then Inr (Some s)
          else if list_all (\<lambda>c. c = CHR '' '') (drop n s) then Inr (Some (take n s))
          else Inl StringDataRightTruncation)"

definition integer_column :: "int option \<Rightarrow> db_error + int option" where
  "integer_column v =
     (case v of
        None \<Rightarrow> Inr None
      | Some i \<Rightarrow> if - (2 ^ 31) \<le> i \<and> i < 2 ^ 31 then Inr (Some i)
                  else Inl NumericValueOutOfRange)"

definition not_null :: "'a option \<Rightarrow> db_error + 'a" where
  "not_null v = (case v of None \<Rightarrow> Inl NotNullViolation | Some x \<Rightarrow> Inr x)"

text \<open>
  The row proposed for insertion, \<^verbatim>\<open>EXCLUDED\<close>: Python builds the tuple of
  parameters, psycopg2 turns them into literals, the server brings each literal to the
  type of its column and checks NOT NULL, all of it before it looks for a conflict.
  \<^verbatim>\<open>timestamp\<close> and \<^verbatim>\<open>error_details\<close> may be NULL, and the text of
  \<^verbatim>\<open>json.dumps\<close> is kept as the list it encodes.
\<close>

definition parameters ::
  "submission_entry \<Rightarrow>
     db_error + (string option \<times> string option \<times> string option \<times> int option
                 \<times> string option \<times> int option \<times> string list)" where
  "parameters submission_entry =
     and_then (subscript (entry_submission_id submission_entry)) (\<lambda>i.
     and_then (subscript (entry_user_id submission_entry)) (\<lambda>u.
     and_then (subscript (entry_problem_id submission_entry)) (\<lambda>p.
     and_then (subscript (entry_score submission_entry)) (\<lambda>s.
     and_then (subscript (entry_replay_result submission_entry)) (\<lambda>r.
     and_then (subscript (entry_timestamp submission_entry)) (\<lambda>ts.
       Inr (i, u, p, s, r, ts,
            (case entry_error_details submission_entry of None \<Rightarrow> [] | Some d \<Rightarrow> d))))))))"

definition excluded_row :: "submission_entry \<Rightarrow> db_error + submission" where
  "excluded_row submission_entry =
     and_then (parameters submission_entry) (\<lambda>(i, u, p, s, r, ts, d).
     and_then (adapt_str i) (\<lambda>i.
     and_then (adapt_str u) (\<lambda>u.
     and_then (adapt_str p) (\<lambda>p.
     and_then (adapt_str r) (\<lambda>r.
     and_then (uuid_column i) (\<lambda>i.
     and_then (varchar_column 50 u) (\<lambda>u.
     and_then (varchar_column 100 p) (\<lambda>p.
     and_then (integer_column s) (\<lambda>s.
     and_then (varchar_column 50 r) (\<lambda>r.
     and_then (not_null i) (\<lambda>i.
     and_then (not_null u) (\<lambda>u.
     and_then (not_null p) (\<lambda>p.
     and_then (not_null s) (\<lambda>s.
     and_then (not_null r) (\<lambda>r.
       Inr \<lparr>submission_id = i, user_id = u, problem_id = p, score = s,
            replay_result = r, timestamp = ts, error_details = d\<rparr>)))))))))))))))"

text \<open>
  A row within the types of its columns: its id is the text of a UUID as a query returns
  it, its strings are within their lengths, its score within \<^verbatim>\<open>INTEGER\<close>.
\<close>

definition row_in_columns :: "submission \<Rightarrow> bool" where
  "row_in_columns r =
     ((\<exists>s. uuid_in s = Some (submission_id r))
      \<and> length (user_id r) \<le> 50 \<and> length (problem_id r) \<le> 100
      \<and> - (2 ^ 31) \<le> score r \<and> score r < 2 ^ 31
      \<and> length (replay_result r) \<le> 50)"

section \<open>save\_submission\<close>

text \<open>
  \<^verbatim>\<open>
  INSERT INTO submissions (id, user_id, problem_id, score, replay_result, timestamp, error_details)
  VALUES (%s, %s, %s, %s, %s, %s, %s)
  ON CONFLICT (user_id, problem_id) DO UPDATE SET
      score = EXCLUDED.score,
      replay_result = EXCLUDED.replay_result,
      timestamp = EXCLUDED.timestamp,
      error_details = EXCLUDED.error_details
  WHERE EXCLUDED.score > submissions.score
     OR (EXCLUDED.score = submissions.score AND EXCLUDED.timestamp < submissions.timestamp)
  \<close>
  \<open>conflict\<close> is the test of the arbiter index, \<open>do_update_where\<close> the condition of the
  update (\<open>score\<close> is NOT NULL, so its comparisons are never NULL), \<open>do_update_set\<close>
  its assignments: four columns, and neither \<^verbatim>\<open>id\<close> nor the two key columns.
\<close>

definition conflict :: "submission \<Rightarrow> submission \<Rightarrow> bool" where
  "conflict excluded r = (user_id r = user_id excluded \<and> problem_id r = problem_id excluded)"

definition do_update_where :: "submission \<Rightarrow> submission \<Rightarrow> sql_bool" where
  "do_update_where excluded r =
     sql_or (Some (score excluded > score r))
            (sql_and (Some (score excluded = score r))
                     (sql_lt (timestamp excluded) (timestamp r)))"

definition do_update_set :: "submission \<Rightarrow> submission \<Rightarrow> submission" where
  "do_update_set excluded r =
     r\<lparr>score := score excluded,
       replay_result := replay_result excluded,
       timestamp := timestamp excluded,
       error_details := error_details excluded\<rparr>"

text \<open>
  The conflict branch, for the row \<open>r\<close> that holds the pair in the unique index. An
  update writes a new version of the row, and a scan of the table returns it after the
  rows that it left alone; where the condition is not true nothing is written.
\<close>

definition on_conflict_do_update :: "submission \<Rightarrow> submission \<Rightarrow> submissions \<Rightarrow> submissions" where
  "on_conflict_do_update excluded r t =
     (if sql_where (do_update_where excluded r)
      then filter (\<lambda>x. \<not> conflict excluded x) t @ [do_update_set excluded r]
      else t)"

text \<open>
  Without a conflict on \<^verbatim>\<open>(user_id, problem_id)\<close> the row is inserted, and the
  insertion fails when its \<^verbatim>\<open>id\<close> is the primary key of a stored row.
\<close>

definition insert_on_conflict :: "submissions \<Rightarrow> submission \<Rightarrow> db_error + submissions" where
  "insert_on_conflict t excluded =
     (case find (conflict excluded) t of
        Some r \<Rightarrow> Inr (on_conflict_do_update excluded r t)
      | None \<Rightarrow>
          if submission_id excluded \<in> set (map submission_id t) then Inl UniqueViolation
          else Inr (t @ [excluded]))"

text \<open>
  \<^verbatim>\<open>
  try:
      cur.execute(...)
      conn.commit()
      return {"success": True}
  except Exception as e:
      conn.rollback()
      return {"success": False, "error": str(e)}
  \<close>
  The function returns its dict together with the table it leaves: the committed one,
  or after the rollback the one it found. The connection is taken as established.
\<close>

datatype save_result = Success | Failure db_error

definition save_submission ::
  "submissions \<Rightarrow> submission_entry \<Rightarrow> save_result \<times> submissions" where
  "save_submission t submission_entry =
     (case and_then (excluded_row submission_entry) (insert_on_conflict t) of
        Inr t' \<Rightarrow> (Success, t')
      | Inl e \<Rightarrow> (Failure e, t))"

text \<open>Calls of \<^verbatim>\<open>save_submission\<close> one after another, as \<^verbatim>\<open>/submit\<close> makes them.\<close>

fun save_all :: "submissions \<Rightarrow> submission_entry list \<Rightarrow> submissions" where
  "save_all t [] = t"
| "save_all t (e # es) = save_all (snd (save_submission t e)) es"

section \<open>The ordering of the specification\<close>

text \<open>
  Invariant I2 of the specification, in its words: the higher score wins outright, an
  equal score is broken by the earlier timestamp winning. One time is earlier than
  another only where both are present.
\<close>

fun earlier :: "int option \<Rightarrow> int option \<Rightarrow> bool" where
  "earlier (Some a) (Some b) = (a < b)"
| "earlier _ _ = False"

definition strictly_better ::
  "'a leaderboard_entry_scheme \<Rightarrow> 'b leaderboard_entry_scheme \<Rightarrow> bool" where
  "strictly_better c r =
     (score c > score r \<or> (score c = score r \<and> earlier (timestamp c) (timestamp r)))"

section \<open>get\_leaderboard\_data\<close>

text \<open>
  \<^verbatim>\<open>ORDER BY score DESC, timestamp ASC\<close>: the higher score first; among equal scores
  the earlier timestamp first, and NULL after every time (PostgreSQL's NULLS LAST for an
  ascending column). \<open>order_le k1 k2\<close> says that a row with the key \<open>k1\<close> may stand
  before a row with the key \<open>k2\<close>.
\<close>

type_synonym order_key = "int \<times> int option"

fun nulls_last_le :: "int option \<Rightarrow> int option \<Rightarrow> bool" where
  "nulls_last_le _ None = True"
| "nulls_last_le None (Some b) = False"
| "nulls_last_le (Some a) (Some b) = (a \<le> b)"

definition order_le :: "order_key \<Rightarrow> order_key \<Rightarrow> bool" where
  "order_le k1 k2 = (fst k1 > fst k2 \<or> (fst k1 = fst k2 \<and> nulls_last_le (snd k1) (snd k2)))"

definition order_key :: "'a leaderboard_entry_scheme \<Rightarrow> order_key" where
  "order_key r = (score r, timestamp r)"

text \<open>
  The sort is an insertion sort that keeps rows with equal keys in the order in which
  it received them; SQL leaves the order among such rows open.
\<close>

fun insert_ordered :: "('a \<Rightarrow> order_key) \<Rightarrow> 'a \<Rightarrow> 'a list \<Rightarrow> 'a list" where
  "insert_ordered k x [] = [x]"
| "insert_ordered k x (y # ys) =
     (if order_le (k x) (k y) then x # y # ys else y # insert_ordered k x ys)"

fun order_by :: "('a \<Rightarrow> order_key) \<Rightarrow> 'a list \<Rightarrow> 'a list" where
  "order_by k [] = []"
| "order_by k (x # xs) = insert_ordered k x (order_by k xs)"

text \<open>
  \<^verbatim>\<open>ROW_NUMBER() OVER (PARTITION BY user_id, problem_id ORDER BY score DESC, timestamp ASC)\<close>.
  A row of the table is known by its position (\<open>enumerate\<close>); its number is its
  place, from 1, among the rows of its partition in the window's order.
\<close>

definition same_partition :: "nat \<times> submission \<Rightarrow> nat \<times> submission \<Rightarrow> bool" where
  "same_partition x y = (user_id (snd x) = user_id (snd y) \<and> problem_id (snd x) = problem_id (snd y))"

definition row_number :: "(nat \<times> submission) list \<Rightarrow> nat \<times> submission \<Rightarrow> nat" where
  "row_number rows x =
     Suc (length (takeWhile (\<lambda>y. y \<noteq> x)
            (order_by (order_key \<circ> snd) (filter (\<lambda>y. same_partition y x) rows))))"

text \<open>
  \<^verbatim>\<open>
  SELECT id, user_id, problem_id, score, replay_result, timestamp
  FROM (SELECT id, user_id, problem_id, score, replay_result, timestamp,
               ROW_NUMBER() OVER (...) as rn
        FROM submissions) as t
  WHERE t.rn = 1
  ORDER BY score DESC, timestamp ASC
  \<close>
\<close>

definition subquery_t :: "submissions \<Rightarrow> (leaderboard_entry \<times> nat) list" where
  "subquery_t t =
     (let rows = enumerate 0 t
      in map (\<lambda>x. (leaderboard_entry.truncate (snd x), row_number rows x)) rows)"

definition submissions_by_problem :: "submissions \<Rightarrow> leaderboard_entry list" where
  "submissions_by_problem t =
     order_by order_key (map fst (filter (\<lambda>row. snd row = 1) (subquery_t t)))"

text \<open>
  \<^verbatim>\<open>
  leaderboard = []
  seen = set()
  for entry in submissions_by_problem:
      if entry['user_id'] not in seen:
          leaderboard.append(dict(entry))
          seen.add(entry['user_id'])
  \<close>
  The state of the loop is the pair of \<open>leaderboard\<close> and \<open>seen\<close>.
\<close>

fun leaderboard_loop ::
  "leaderboard_entry list \<Rightarrow> leaderboard_entry list \<times> string set
     \<Rightarrow> leaderboard_entry list \<times> string set" where
  "leaderboard_loop [] st = st"
| "leaderboard_loop (entry # rest) (leaderboard, seen) =
     (if user_id entry \<notin> seen
      then leaderboard_loop rest (leaderboard @ [entry], insert (user_id entry) seen)
      else leaderboard_loop rest (leaderboard, seen))"

definition get_leaderboard_data :: "submissions \<Rightarrow> leaderboard_entry list" where
  "get_leaderboard_data t = fst (leaderboard_loop (submissions_by_problem t) ([], {}))"

text \<open>
  \<^verbatim>\<open>dict(entry)\<close>: the cursor is a \<^verbatim>\<open>RealDictCursor\<close>, so an entry is a dict
  from the names of the selected columns to their values.
\<close>

datatype sql_value = Text string | Integer int | Timestamp int | Null

definition dict :: "leaderboard_entry \<Rightarrow> (string \<times> sql_value) list" where
  "dict entry =
     [(''id'', Text (submission_id entry)),
      (''user_id'', Text (user_id entry)),
      (''problem_id'', Text (problem_id entry)),
      (''score'', Integer (score entry)),
      (''replay_result'', Text (replay_result entry)),
      (''timestamp'', (case timestamp entry of None \<Rightarrow> Null | Some ts \<Rightarrow> Timestamp ts))]"

section \<open>Example submissions\<close>

text \<open>
  The submissions of the specification's example scenarios: an id, a user, a problem, a
  score and a time. \<open>entry\<close> is the dict as the grader hands it over, \<open>candidate\<close> the
  row of the table with these values.
\<close>

definition id1 :: string where "id1 = ''00000000-0000-4000-8000-000000000001''"
definition id2 :: string where "id2 = ''00000000-0000-4000-8000-000000000002''"
definition id3 :: string where "id3 = ''00000000-0000-4000-8000-000000000003''"
definition id4 :: string where "id4 = ''00000000-0000-4000-8000-000000000004''"
definition id5 :: string where "id5 = ''00000000-0000-4000-8000-000000000005''"

definition entry :: "string \<Rightarrow> string \<Rightarrow> string \<Rightarrow> int \<Rightarrow> int \<Rightarrow> submission_entry" where
  "entry i u p s ts =
     \<lparr>entry_submission_id = PyValue i, entry_user_id = PyValue u, entry_problem_id = PyValue p,
      entry_score = PyValue s, entry_replay_result = PyValue ''passed'',
      entry_timestamp = PyValue ts, entry_error_details = Some []\<rparr>"

definition candidate :: "string \<Rightarrow> string \<Rightarrow> string \<Rightarrow> int \<Rightarrow> int \<Rightarrow> submission" where
  "candidate i u p s ts =
     \<lparr>submission_id = i, user_id = u, problem_id = p, score = s,
      replay_result = ''passed'', timestamp = Some ts, error_details = []\<rparr>"

section \<open>Facts about the SQL conditions and the stored row\<close>

lemma sql_or_Some: "sql_or (Some a) (Some b) = Some (a \<or> b)"
  by (cases a; cases b) simp_all

lemma sql_and_Some: "sql_and (Some a) (Some b) = Some (a \<and> b)"
  by (cases a; cases b) simp_all

lemma sql_and_None: "sql_and (Some a) None = (if a then None else Some False)"
  by (cases a) simp_all

lemma sql_or_None: "sql_or (Some a) None = (if a then Some True else None)"
  by (cases a) simp_all

lemma sql_where_do_update_where:
  "sql_where (do_update_where c r) = strictly_better c r"
  by (cases "timestamp c"; cases "timestamp r")
     (auto simp: sql_where_def do_update_where_def strictly_better_def
        sql_or_Some sql_and_Some sql_and_None sql_or_None)

lemma find_conflict: "find (conflict c) t = stored t (user_id c) (problem_id c)"
  by (induction t) (simp_all add: stored_def conflict_def)

lemma stored_Some_D:
  "stored t u p = Some r \<Longrightarrow> r \<in> set t \<and> user_id r = u \<and> problem_id r = p"
  by (auto simp: stored_def find_Some_iff)

lemma stored_append:
  "stored (t @ [c]) u p =
     (case stored t u p of Some r \<Rightarrow> Some r
      | None \<Rightarrow> if user_id c = u \<and> problem_id c = p then Some c else None)"
  by (induction t) (simp_all add: stored_def)

lemma stored_None_pairs:
  "stored t u p = None \<Longrightarrow> (u, p) \<notin> set (map (\<lambda>r. (user_id r, problem_id r)) t)"
  by (auto simp: stored_def find_None_iff)

lemma stored_new_version:
  "conflict c r' \<Longrightarrow>
   stored (filter (\<lambda>x. \<not> conflict c x) t @ [r']) (user_id c) (problem_id c) = Some r'"
  by (induction t) (simp_all add: stored_def conflict_def)

lemma stored_new_version_other:
  "conflict c r' \<Longrightarrow> (u, p) \<noteq> (user_id c, problem_id c) \<Longrightarrow>
   stored (filter (\<lambda>x. \<not> conflict c x) t @ [r']) u p = stored t u p"
  by (induction t) (auto simp: stored_def conflict_def)

lemma conflict_do_update_set: "conflict c r \<Longrightarrow> conflict c (do_update_set c r)"
  by (simp add: conflict_def do_update_set_def)

lemma stored_on_conflict_same:
  assumes "stored t (user_id c) (problem_id c) = Some r"
  shows "stored (on_conflict_do_update c r t) (user_id c) (problem_id c) =
     Some (if strictly_better c r then do_update_set c r else r)"
proof -
  from stored_Some_D [OF assms] have "conflict c r" by (simp add: conflict_def)
  then have "conflict c (do_update_set c r)" by (rule conflict_do_update_set)
  from stored_new_version [OF this] assms show ?thesis
    by (simp add: on_conflict_do_update_def sql_where_do_update_where)
qed

lemma stored_on_conflict_other:
  assumes "stored t (user_id c) (problem_id c) = Some r"
    and "(u, p) \<noteq> (user_id c, problem_id c)"
  shows "stored (on_conflict_do_update c r t) u p = stored t u p"
proof -
  from stored_Some_D [OF assms(1)] have "conflict c r" by (simp add: conflict_def)
  then have "conflict c (do_update_set c r)" by (rule conflict_do_update_set)
  from stored_new_version_other [OF this assms(2)] show ?thesis
    by (simp add: on_conflict_do_update_def)
qed

lemma on_conflict_unchanged:
  "\<not> strictly_better c r \<Longrightarrow> on_conflict_do_update c r t = t"
  by (simp add: on_conflict_do_update_def sql_where_do_update_where)

lemma do_update_set_changes:
  "strictly_better c r \<Longrightarrow> do_update_set c r \<noteq> r"
proof
  assume b: "strictly_better c r" and e: "do_update_set c r = r"
  from e have "score (do_update_set c r) = score r"
    and "timestamp (do_update_set c r) = timestamp r" by simp_all
  then have "score c = score r" and "timestamp c = timestamp r"
    by (simp_all add: do_update_set_def)
  with b show False
    by (cases "timestamp r") (simp_all add: strictly_better_def)
qed

lemma on_conflict_changed:
  assumes "stored t (user_id c) (problem_id c) = Some r" and "strictly_better c r"
  shows "on_conflict_do_update c r t \<noteq> t"
proof
  assume "on_conflict_do_update c r t = t"
  with stored_on_conflict_same [OF assms(1)] assms have "do_update_set c r = r" by simp
  with do_update_set_changes [OF assms(2)] show False by simp
qed

lemma unique_on_conflict:
  assumes "unique_user_problem t" and "conflict c r"
  shows "unique_user_problem (on_conflict_do_update c r t)"
proof (cases "sql_where (do_update_where c r)")
  case False
  with assms show ?thesis by (simp add: on_conflict_do_update_def)
next
  case True
  let ?k = "\<lambda>r. (user_id r, problem_id r)"
  have 1: "distinct (map ?k (filter (\<lambda>x. \<not> conflict c x) t))"
    using assms(1) by (simp add: unique_user_problem_def distinct_map_filter)
  have 2: "?k (do_update_set c r) \<notin> set (map ?k (filter (\<lambda>x. \<not> conflict c x) t))"
    using assms(2) by (auto simp: conflict_def do_update_set_def)
  from 1 2 True show ?thesis
    by (simp add: on_conflict_do_update_def unique_user_problem_def)
qed

lemma save_submission_rejected_values:
  "excluded_row e = Inl err \<Longrightarrow> save_submission t e = (Failure err, t)"
  by (simp add: save_submission_def)

lemma save_submission_conflict:
  "excluded_row e = Inr c \<Longrightarrow> stored t (user_id c) (problem_id c) = Some r \<Longrightarrow>
   save_submission t e = (Success, on_conflict_do_update c r t)"
  by (simp add: save_submission_def insert_on_conflict_def find_conflict)

lemma save_submission_insert:
  "excluded_row e = Inr c \<Longrightarrow> stored t (user_id c) (problem_id c) = None \<Longrightarrow>
   save_submission t e =
     (if submission_id c \<in> set (map submission_id t) then (Failure UniqueViolation, t)
      else (Success, t @ [c]))"
  by (simp add: save_submission_def insert_on_conflict_def find_conflict)

lemma save_submission_cases:
  obtains (rejected_values) err where "excluded_row e = Inl err"
      and "save_submission t e = (Failure err, t)"
  | (conflict) c r where "excluded_row e = Inr c"
      and "stored t (user_id c) (problem_id c) = Some r"
      and "save_submission t e = (Success, on_conflict_do_update c r t)"
  | (violation) c where "excluded_row e = Inr c"
      and "stored t (user_id c) (problem_id c) = None"
      and "submission_id c \<in> set (map submission_id t)"
      and "save_submission t e = (Failure UniqueViolation, t)"
  | (inserted) c where "excluded_row e = Inr c"
      and "stored t (user_id c) (problem_id c) = None"
      and "submission_id c \<notin> set (map submission_id t)"
      and "save_submission t e = (Success, t @ [c])"
proof (cases "excluded_row e")
  case (Inl err)
  then show ?thesis using rejected_values by (simp add: save_submission_rejected_values)
next
  case (Inr c)
  show ?thesis
  proof (cases "stored t (user_id c) (problem_id c)")
    case None
    with Inr show ?thesis
      using violation [of c] inserted [of c]
      by (cases "submission_id c \<in> set (map submission_id t)")
        (simp_all add: save_submission_insert)
  next
    case (Some r)
    with Inr show ?thesis using conflict [of c r] by (simp add: save_submission_conflict)
  qed
qed

lemma earlier_irrefl: "\<not> earlier a a"
  by (cases a) simp_all

lemma earlier_trans: "earlier a b \<Longrightarrow> earlier b c \<Longrightarrow> earlier a c"
  by (cases a; cases b; cases c) simp_all

lemma not_strictly_better_same_key:
  "score r = score c \<Longrightarrow> timestamp r = timestamp c \<Longrightarrow> \<not> strictly_better c r"
  by (simp add: strictly_better_def earlier_irrefl)

lemma strictly_better_trans:
  "strictly_better a b \<Longrightarrow> strictly_better b c \<Longrightarrow> strictly_better a c"
  unfolding strictly_better_def using earlier_trans [of "timestamp a" "timestamp b" "timestamp c"]
  by auto

lemma strictly_better_do_update_set:
  "strictly_better c r \<Longrightarrow> strictly_better (do_update_set c r) r"
  by (simp add: strictly_better_def do_update_set_def)

lemma strictly_better_cong:
  "score a = score a' \<Longrightarrow> timestamp a = timestamp a' \<Longrightarrow>
   score b = score b' \<Longrightarrow> timestamp b = timestamp b' \<Longrightarrow>
   strictly_better a b = strictly_better a' b'"
  by (simp add: strictly_better_def)

lemma strictly_better_irrefl: "\<not> strictly_better a a"
  by (simp add: strictly_better_def earlier_irrefl)

lemma earlier_trichotomy:
  "a \<noteq> None \<Longrightarrow> b \<noteq> None \<Longrightarrow> \<not> earlier a b \<Longrightarrow> \<not> earlier b a \<Longrightarrow> a = b"
  by (cases a; cases b) simp_all

lemma strictly_better_trichotomy:
  assumes "timestamp a \<noteq> None" and "timestamp b \<noteq> None"
    and "\<not> strictly_better a b" and "\<not> strictly_better b a"
  shows "score a = score b \<and> timestamp a = timestamp b"
proof -
  from assms(3,4) have s: "score a = score b"
    by (auto simp: strictly_better_def)
  with assms(3,4) have "\<not> earlier (timestamp a) (timestamp b)"
    and "\<not> earlier (timestamp b) (timestamp a)"
    by (simp_all add: strictly_better_def)
  with assms(1,2) have "timestamp a = timestamp b" by (rule earlier_trichotomy)
  with s show ?thesis by simp
qed

section \<open>Rows within their columns\<close>

lemma and_then_Inr: "(and_then x f = Inr y) = (\<exists>a. x = Inr a \<and> f a = Inr y)"
  by (cases x) simp_all

lemma uuid_column_Some: "uuid_column v = Inr (Some u) \<Longrightarrow> \<exists>s. uuid_in s = Some u"
  by (auto simp: uuid_column_def split: option.splits)

lemma varchar_column_Some: "varchar_column n v = Inr (Some s) \<Longrightarrow> length s \<le> n"
  by (auto simp: varchar_column_def split: option.splits if_splits)

lemma integer_column_Some:
  "integer_column v = Inr (Some i) \<Longrightarrow> - (2 ^ 31) \<le> i \<and> i < 2 ^ 31"
  by (auto simp: integer_column_def split: option.splits if_splits)

lemma not_null_Inr: "(not_null v = Inr x) = (v = Some x)"
  by (cases v) (simp_all add: not_null_def)

lemma excluded_row_in_columns:
  assumes "excluded_row e = Inr c"
  shows "row_in_columns c"
proof -
  from assms obtain i u p s r
    where "uuid_column i = Inr (Some (submission_id c))"
      and "varchar_column 50 u = Inr (Some (user_id c))"
      and "varchar_column 100 p = Inr (Some (problem_id c))"
      and "integer_column s = Inr (Some (score c))"
      and "varchar_column 50 r = Inr (Some (replay_result c))"
    unfolding excluded_row_def
    by (auto simp: and_then_Inr not_null_Inr)
  then show ?thesis
    using uuid_column_Some varchar_column_Some integer_column_Some
    unfolding row_in_columns_def by blast
qed

lemma rows_in_columns_save:
  assumes "list_all row_in_columns t"
  shows "list_all row_in_columns (snd (save_submission t e))"
proof (cases rule: save_submission_cases [where t = t and e = e])
  case (rejected_values err)
  with assms show ?thesis by simp
next
  case (conflict c r)
  from excluded_row_in_columns [OF conflict(1)] have c: "row_in_columns c" .
  from stored_Some_D [OF conflict(2)] assms have "row_in_columns r"
    by (simp add: list_all_iff)
  with c have "row_in_columns (do_update_set c r)"
    by (simp add: row_in_columns_def do_update_set_def)
  with assms conflict(3) show ?thesis
    by (simp add: on_conflict_do_update_def list_all_iff)
next
  case (violation c)
  with assms show ?thesis by simp
next
  case (inserted c)
  with assms excluded_row_in_columns [OF inserted(1)] show ?thesis by simp
qed

lemma rows_in_columns_save_all:
  "list_all row_in_columns t \<Longrightarrow> list_all row_in_columns (save_all t es)"
  by (induction es arbitrary: t) (simp_all add: rows_in_columns_save)

lemma primary_key_save:
  "primary_key t \<Longrightarrow> primary_key (snd (save_submission t e))"
proof (cases rule: save_submission_cases [where t = t and e = e])
  case (rejected_values err)
  assume "primary_key t"
  with rejected_values show ?thesis by simp
next
  case (conflict c r)
  assume pk: "primary_key t"
  from stored_Some_D [OF conflict(2)] have r: "r \<in> set t" "conflict c r"
    by (simp_all add: conflict_def)
  have "distinct (map submission_id (filter (\<lambda>x. \<not> conflict c x) t))"
    using pk by (simp add: primary_key_def distinct_map_filter)
  moreover have "submission_id r \<notin> set (map submission_id (filter (\<lambda>x. \<not> conflict c x) t))"
  proof
    assume "submission_id r \<in> set (map submission_id (filter (\<lambda>x. \<not> conflict c x) t))"
    then obtain x where x: "x \<in> set t" "\<not> conflict c x" "submission_id x = submission_id r"
      by auto
    from pk have "inj_on submission_id (set t)" by (simp add: primary_key_def distinct_map)
    with x r(1) have "x = r" by (auto dest: inj_onD)
    with x(2) r(2) show False by simp
  qed
  ultimately have "primary_key (on_conflict_do_update c r t)"
    using pk by (simp add: on_conflict_do_update_def primary_key_def do_update_set_def)
  with conflict(3) show ?thesis by simp
next
  case (violation c)
  assume "primary_key t"
  with violation show ?thesis by simp
next
  case (inserted c)
  assume "primary_key t"
  with inserted show ?thesis by (simp add: primary_key_def)
qed

section \<open>Insertion, overwrite, rejection\<close>

text \<open>
  Claim C1, as the code has it. For a candidate whose values are present and fit the
  columns of the table (\<open>excluded_row\<close> gives its row \<open>c\<close>): \<^verbatim>\<open>save_submission\<close>
  inserts \<open>c\<close> when no row is stored for its \<^verbatim>\<open>(user_id, problem_id)\<close> and its id is
  not the id of a stored row; when a row \<open>r\<close> is stored for the pair, the call succeeds,
  it changes the table if and only if the candidate is strictly better than \<open>r\<close> under
  I2 (a higher score, or the same score and an earlier timestamp), the stored row then
  takes the candidate's score, replay\_result, timestamp and error\_details, and
  otherwise the table is left as it was.
\<close>

theorem save_submission_upsert:
  assumes "excluded_row e = Inr c"
  shows "(stored t (user_id c) (problem_id c) = None \<longrightarrow>
      submission_id c \<notin> set (map submission_id t) \<longrightarrow>
      save_submission t e = (Success, t @ [c]) \<and>
      stored (t @ [c]) (user_id c) (problem_id c) = Some c)
   \<and> (\<forall>r. stored t (user_id c) (problem_id c) = Some r \<longrightarrow>
         fst (save_submission t e) = Success \<and>
         (snd (save_submission t e) \<noteq> t) = strictly_better c r \<and>
         stored (snd (save_submission t e)) (user_id c) (problem_id c) =
           Some (if strictly_better c r
                 then r\<lparr>score := score c, replay_result := replay_result c,
                        timestamp := timestamp c, error_details := error_details c\<rparr>
                 else r))"
proof (intro conjI impI allI)
  assume "stored t (user_id c) (problem_id c) = None"
    and "submission_id c \<notin> set (map submission_id t)"
  with assms show "save_submission t e = (Success, t @ [c])"
    by (simp add: save_submission_insert)
next
  assume "stored t (user_id c) (problem_id c) = None"
  then show "stored (t @ [c]) (user_id c) (problem_id c) = Some c"
    by (simp add: stored_append)
next
  fix r assume s: "stored t (user_id c) (problem_id c) = Some r"
  note sv = save_submission_conflict [OF assms s]
  show "fst (save_submission t e) = Success" by (simp add: sv)
  show "(snd (save_submission t e) \<noteq> t) = strictly_better c r"
    using on_conflict_changed [OF s] on_conflict_unchanged [of c r t]
    by (auto simp: sv)
  show "stored (snd (save_submission t e)) (user_id c) (problem_id c) =
           Some (if strictly_better c r
                 then r\<lparr>score := score c, replay_result := replay_result c,
                        timestamp := timestamp c, error_details := error_details c\<rparr>
                 else r)"
    using stored_on_conflict_same [OF s] by (simp add: sv do_update_set_def)
qed

theorem save_submission_upsert_witness:
  "excluded_row (entry id1 ''u1'' ''p1'' 50 1) = Inr (candidate id1 ''u1'' ''p1'' 50 1)
   \<and> save_submission [] (entry id1 ''u1'' ''p1'' 50 1)
       = (Success, [candidate id1 ''u1'' ''p1'' 50 1])
   \<and> snd (save_submission [candidate id1 ''u1'' ''p1'' 50 1] (entry id2 ''u1'' ''p1'' 80 2))
       \<noteq> [candidate id1 ''u1'' ''p1'' 50 1]
   \<and> stored (snd (save_submission [candidate id1 ''u1'' ''p1'' 50 1]
                 (entry id2 ''u1'' ''p1'' 80 2))) ''u1'' ''p1''
       = Some (candidate id1 ''u1'' ''p1'' 80 2)
   \<and> snd (save_submission [candidate id1 ''u1'' ''p1'' 80 2] (entry id3 ''u1'' ''p1'' 80 3))
       = [candidate id1 ''u1'' ''p1'' 80 2]"
proof -
  have b1: "excluded_row (entry id1 ''u1'' ''p1'' 50 1) = Inr (candidate id1 ''u1'' ''p1'' 50 1)"
    and b2: "excluded_row (entry id2 ''u1'' ''p1'' 80 2) = Inr (candidate id2 ''u1'' ''p1'' 80 2)"
    and b3: "excluded_row (entry id3 ''u1'' ''p1'' 80 3) = Inr (candidate id3 ''u1'' ''p1'' 80 3)"
    by code_simp+
  have f: "user_id (candidate i ''u1'' ''p1'' s ts) = ''u1''"
    "problem_id (candidate i ''u1'' ''p1'' s ts) = ''p1''" for i s ts
    by (simp_all add: candidate_def)
  have s0: "stored [] ''u1'' ''p1'' = None"
    and s1: "stored [candidate id1 ''u1'' ''p1'' 50 1] ''u1'' ''p1''
        = Some (candidate id1 ''u1'' ''p1'' 50 1)"
    and s2: "stored [candidate id1 ''u1'' ''p1'' 80 2] ''u1'' ''p1''
        = Some (candidate id1 ''u1'' ''p1'' 80 2)"
    by (simp_all add: stored_def candidate_def)
  have o: "strictly_better (candidate id2 ''u1'' ''p1'' 80 2) (candidate id1 ''u1'' ''p1'' 50 1)"
    "\<not> strictly_better (candidate id3 ''u1'' ''p1'' 80 3) (candidate id1 ''u1'' ''p1'' 80 2)"
    "(candidate id1 ''u1'' ''p1'' 50 1)\<lparr>score := score (candidate id2 ''u1'' ''p1'' 80 2),
        replay_result := replay_result (candidate id2 ''u1'' ''p1'' 80 2),
        timestamp := timestamp (candidate id2 ''u1'' ''p1'' 80 2),
        error_details := error_details (candidate id2 ''u1'' ''p1'' 80 2)\<rparr>
      = candidate id1 ''u1'' ''p1'' 80 2"
    by (simp_all add: strictly_better_def candidate_def)
  from save_submission_upsert [OF b1, of "[]"]
    save_submission_upsert [OF b2, of "[candidate id1 ''u1'' ''p1'' 50 1]"]
    save_submission_upsert [OF b3, of "[candidate id1 ''u1'' ''p1'' 80 2]"]
  show ?thesis unfolding f using b1 s0 s1 s2 o by simp
qed

text \<open>
  Without the condition on the values the claim fails: a candidate with a
  \<^verbatim>\<open>user_id\<close> of 51 characters, as \<^verbatim>\<open>/submit\<close> passes it on unchecked, has no
  row stored for its pair and is not inserted; or one whose score does not fit
  \<^verbatim>\<open>INTEGER\<close>, or whose id is no UUID, or one whose id a row of another pair has.
\<close>

theorem save_submission_upsert_counterexample:
  "stored [] (replicate 51 CHR ''u'') ''p1'' = None
   \<and> save_submission [] (entry id1 (replicate 51 CHR ''u'') ''p1'' 50 1)
       = (Failure StringDataRightTruncation, [])
   \<and> save_submission [] (entry id1 ''u1'' ''p1'' (2 ^ 31) 1)
       = (Failure NumericValueOutOfRange, [])
   \<and> save_submission [] (entry ''s1'' ''u1'' ''p1'' 50 1)
       = (Failure InvalidTextRepresentation, [])
   \<and> stored [candidate id1 ''u1'' ''p1'' 50 1] ''u2'' ''p1'' = None
   \<and> save_submission [candidate id1 ''u1'' ''p1'' 50 1] (entry id1 ''u2'' ''p1'' 70 2)
       = (Failure UniqueViolation, [candidate id1 ''u1'' ''p1'' 50 1])"
  by code_simp

section \<open>The three outcomes of a call\<close>

lemma stored_after_save_other:
  assumes "excluded_row e = Inr c" and "(u, p) \<noteq> (user_id c, problem_id c)"
  shows "stored (snd (save_submission t e)) u p = stored t u p"
proof (cases "stored t (user_id c) (problem_id c)")
  case None
  with assms show ?thesis
    by (cases "stored t u p") (auto simp: save_submission_insert stored_append)
next
  case (Some r)
  with assms show ?thesis
    by (simp add: save_submission_conflict stored_on_conflict_other)
qed

section \<open>What an overwrite writes\<close>

text \<open>
  Claim C4, as the code has it. When a candidate whose values fit the columns wins
  against the stored row, \<^verbatim>\<open>save_submission\<close> overwrites score, replay\_result,
  timestamp and error\_details with the candidate's values and keeps the row's
  \<^verbatim>\<open>id\<close>, user\_id and problem\_id: \<^verbatim>\<open>DO UPDATE SET\<close> does not assign
  \<^verbatim>\<open>id\<close>. The row stored for any other pair is untouched.
\<close>

theorem overwrite_fields:
  assumes "excluded_row e = Inr c"
    and "stored t (user_id c) (problem_id c) = Some r" and "strictly_better c r"
  shows "(\<exists>r'. stored (snd (save_submission t e)) (user_id c) (problem_id c) = Some r'
           \<and> score r' = score c \<and> replay_result r' = replay_result c
           \<and> timestamp r' = timestamp c \<and> error_details r' = error_details c
           \<and> submission_id r' = submission_id r
           \<and> user_id r' = user_id r \<and> problem_id r' = problem_id r)
    \<and> (\<forall>u p. (u, p) \<noteq> (user_id c, problem_id c) \<longrightarrow>
           stored (snd (save_submission t e)) u p = stored t u p)"
  using assms stored_on_conflict_same [OF assms(2)]
  by (simp add: save_submission_conflict [OF assms(1,2)] do_update_set_def
      stored_on_conflict_other)

theorem overwrite_fields_witness:
  "excluded_row (entry id2 ''u1'' ''p1'' 80 2) = Inr (candidate id2 ''u1'' ''p1'' 80 2)
   \<and> stored [candidate id1 ''u1'' ''p1'' 50 1, candidate id4 ''u2'' ''p1'' 60 4] ''u1'' ''p1''
     = Some (candidate id1 ''u1'' ''p1'' 50 1)
   \<and> strictly_better (candidate id2 ''u1'' ''p1'' 80 2) (candidate id1 ''u1'' ''p1'' 50 1)
   \<and> (\<exists>r'. stored (snd (save_submission
                 [candidate id1 ''u1'' ''p1'' 50 1, candidate id4 ''u2'' ''p1'' 60 4]
                 (entry id2 ''u1'' ''p1'' 80 2))) ''u1'' ''p1'' = Some r'
          \<and> score r' = 80 \<and> timestamp r' = Some 2 \<and> submission_id r' = id1)
   \<and> stored (snd (save_submission
         [candidate id1 ''u1'' ''p1'' 50 1, candidate id4 ''u2'' ''p1'' 60 4]
         (entry id2 ''u1'' ''p1'' 80 2))) ''u2'' ''p1''
       = Some (candidate id4 ''u2'' ''p1'' 60 4)"
proof -
  let ?t = "[candidate id1 ''u1'' ''p1'' 50 1, candidate id4 ''u2'' ''p1'' 60 4]"
  let ?c = "candidate id2 ''u1'' ''p1'' 80 2"
  have 0: "excluded_row (entry id2 ''u1'' ''p1'' 80 2) = Inr ?c" by code_simp
  have 1: "stored ?t (user_id ?c) (problem_id ?c) = Some (candidate id1 ''u1'' ''p1'' 50 1)"
    by (simp add: stored_def candidate_def)
  have 2: "strictly_better ?c (candidate id1 ''u1'' ''p1'' 50 1)"
    by (simp add: strictly_better_def candidate_def)
  have 3: "stored ?t ''u2'' ''p1'' = Some (candidate id4 ''u2'' ''p1'' 60 4)"
    by (simp add: stored_def candidate_def)
  have 4: "user_id ?c = ''u1''" "problem_id ?c = ''p1''" "score ?c = 80" "timestamp ?c = Some 2"
    "submission_id (candidate id1 ''u1'' ''p1'' 50 1) = id1"
    by (simp_all add: candidate_def)
  from overwrite_fields [OF 0 1 2] 0 1 2 3 show ?thesis
    unfolding 4 by auto
qed

text \<open>
  The stored id after an overwrite is therefore not the id of the submission that
  produced the current score: the first submission scores 50, the second then scores
  80 for the same pair, and the row that holds 80 still has the id of the first.
\<close>

theorem overwrite_keeps_id_counterexample:
  "stored [candidate id1 ''u1'' ''p1'' 50 1] ''u1'' ''p1'' = Some (candidate id1 ''u1'' ''p1'' 50 1)
   \<and> excluded_row (entry id2 ''u1'' ''p1'' 80 2) = Inr (candidate id2 ''u1'' ''p1'' 80 2)
   \<and> strictly_better (candidate id2 ''u1'' ''p1'' 80 2) (candidate id1 ''u1'' ''p1'' 50 1)
   \<and> save_submission [candidate id1 ''u1'' ''p1'' 50 1] (entry id2 ''u1'' ''p1'' 80 2)
       = (Success, [candidate id1 ''u1'' ''p1'' 80 2])
   \<and> submission_id (candidate id1 ''u1'' ''p1'' 80 2) \<noteq> id2"
  by code_simp

section \<open>The result of a call\<close>




section \<open>One row per user and problem\<close>

lemma unique_user_problem_save:
  "unique_user_problem t \<Longrightarrow> unique_user_problem (snd (save_submission t e))"
proof (cases rule: save_submission_cases [where t = t and e = e])
  case (rejected_values err)
  assume "unique_user_problem t"
  with rejected_values show ?thesis by simp
next
  case (conflict c r)
  assume u: "unique_user_problem t"
  from stored_Some_D [OF conflict(2)] have "conflict c r" by (simp add: conflict_def)
  from unique_on_conflict [OF u this] conflict(3) show ?thesis by simp
next
  case (violation c)
  assume "unique_user_problem t"
  with violation show ?thesis by simp
next
  case (inserted c)
  assume "unique_user_problem t"
  with inserted stored_None_pairs [OF inserted(2)] show ?thesis
    by (simp add: unique_user_problem_def)
qed

lemma unique_user_problem_save_all:
  "unique_user_problem t \<Longrightarrow> unique_user_problem (save_all t es)"
  by (induction es arbitrary: t) (simp_all add: unique_user_problem_save)

text \<open>
  Claim C6. After any sequence of calls of \<^verbatim>\<open>save_submission\<close> from the empty
  table that \<^verbatim>\<open>init_db\<close> creates, no two rows of the table have the same
  \<^verbatim>\<open>(user_id, problem_id)\<close>; and every call preserves this.
\<close>

theorem at_most_one_row_per_pair:
  "unique_user_problem (save_all (init_db None) cs)
   \<and> (unique_user_problem t \<longrightarrow> unique_user_problem (snd (save_submission t c)))"
  by (simp add: unique_user_problem_save unique_user_problem_save_all init_db_def
      unique_user_problem_def [of "[]"])

theorem at_most_one_row_per_pair_witness:
  "unique_user_problem [candidate id1 ''u1'' ''p1'' 50 1]
   \<and> unique_user_problem (snd (save_submission [candidate id1 ''u1'' ''p1'' 50 1]
        (entry id2 ''u1'' ''p1'' 80 2)))
   \<and> unique_user_problem (save_all (init_db None)
        [entry id1 ''u1'' ''p1'' 50 1, entry id2 ''u1'' ''p1'' 80 2,
         entry id3 ''u1'' ''p2'' 70 3])"
proof -
  have 1: "unique_user_problem [candidate id1 ''u1'' ''p1'' 50 1]"
    by (simp add: unique_user_problem_def)
  from at_most_one_row_per_pair [of _ "[candidate id1 ''u1'' ''p1'' 50 1]"] 1
  show ?thesis by blast
qed

section \<open>No regression\<close>

lemma stored_after_save:
  assumes "stored t u p = Some r"
  shows "\<exists>r'. stored (snd (save_submission t e)) u p = Some r'
           \<and> (r' = r \<or> strictly_better r' r) \<and> submission_id r' = submission_id r"
proof (cases rule: save_submission_cases [where t = t and e = e])
  case (rejected_values err)
  with assms show ?thesis by simp
next
  case (conflict c x)
  show ?thesis
  proof (cases "(u, p) = (user_id c, problem_id c)")
    case True
    with assms conflict(2) have "x = r" by simp
    have "submission_id (do_update_set c r) = submission_id r"
      by (simp add: do_update_set_def)
    with stored_on_conflict_same [OF conflict(2)] True conflict(3) \<open>x = r\<close>
    show ?thesis
      by (cases "strictly_better c r") (simp_all add: strictly_better_do_update_set)
  next
    case False
    with assms conflict(3) stored_on_conflict_other [OF conflict(2), of u p]
    show ?thesis by simp
  qed
next
  case (violation c)
  with assms show ?thesis by simp
next
  case (inserted c)
  with assms show ?thesis by (simp add: stored_append)
qed

lemma stored_after_save_all:
  "stored t u p = Some r \<Longrightarrow>
   \<exists>r'. stored (save_all t es) u p = Some r'
      \<and> (r' = r \<or> strictly_better r' r) \<and> submission_id r' = submission_id r"
proof (induction es arbitrary: t r)
  case Nil
  then show ?case by simp
next
  case (Cons e es)
  from stored_after_save [OF Cons.prems, of e] obtain r1
    where 1: "stored (snd (save_submission t e)) u p = Some r1"
      and 2: "r1 = r \<or> strictly_better r1 r" and 3: "submission_id r1 = submission_id r"
    by blast
  from Cons.IH [OF 1] obtain r2
    where 4: "stored (save_all (snd (save_submission t e)) es) u p = Some r2"
      and 5: "r2 = r1 \<or> strictly_better r2 r1" and 6: "submission_id r2 = submission_id r1"
    by blast
  from 2 5 have "r2 = r \<or> strictly_better r2 r"
    using strictly_better_trans by blast
  with 3 4 6 show ?case by simp
qed

text \<open>
  Claim C7. A candidate that is worse than the row stored for its pair (a lower score,
  or the same score and a timestamp that is not earlier) leaves the whole table as it
  was, without error; and over any sequence of calls the row stored for a pair is at
  every later time the same row or a strictly better one under I2. The candidate is
  compared by the row \<open>c\<close> of its values; a candidate whose values make no row fails
  and writes nothing.
\<close>

theorem no_regression:
  "(excluded_row e = Inr c \<longrightarrow> stored t (user_id c) (problem_id c) = Some r \<longrightarrow>
      (score c < score r \<or> (score c = score r \<and> \<not> earlier (timestamp c) (timestamp r))) \<longrightarrow>
      save_submission t e = (Success, t))
   \<and> (\<forall>err. excluded_row e = Inl err \<longrightarrow> save_submission t e = (Failure err, t))
   \<and> (stored t u p = Some r \<longrightarrow>
        (\<exists>r'. stored (save_all t es) u p = Some r' \<and> (r' = r \<or> strictly_better r' r)))"
proof (intro conjI impI allI)
  assume b: "excluded_row e = Inr c"
    and s: "stored t (user_id c) (problem_id c) = Some r"
    and w: "score c < score r \<or> (score c = score r \<and> \<not> earlier (timestamp c) (timestamp r))"
  from w have "\<not> strictly_better c r" by (auto simp: strictly_better_def)
  with b s show "save_submission t e = (Success, t)"
    by (simp add: save_submission_conflict on_conflict_unchanged)
next
  fix err assume "excluded_row e = Inl err"
  then show "save_submission t e = (Failure err, t)"
    by (rule save_submission_rejected_values)
next
  assume "stored t u p = Some r"
  from stored_after_save_all [OF this, of es]
  show "\<exists>r'. stored (save_all t es) u p = Some r' \<and> (r' = r \<or> strictly_better r' r)"
    by blast
qed

theorem no_regression_witness:
  "excluded_row (entry id3 ''u1'' ''p1'' 80 3) = Inr (candidate id3 ''u1'' ''p1'' 80 3)
   \<and> stored [candidate id1 ''u1'' ''p1'' 80 2] ''u1'' ''p1'' = Some (candidate id1 ''u1'' ''p1'' 80 2)
   \<and> save_submission [candidate id1 ''u1'' ''p1'' 80 2] (entry id3 ''u1'' ''p1'' 80 3)
       = (Success, [candidate id1 ''u1'' ''p1'' 80 2])
   \<and> (\<exists>r'. stored (save_all [candidate id1 ''u1'' ''p1'' 80 2]
               [entry id3 ''u1'' ''p1'' 80 3, entry id5 ''u1'' ''p1'' 90 5]) ''u1'' ''p1''
             = Some r'
          \<and> (r' = candidate id1 ''u1'' ''p1'' 80 2
              \<or> strictly_better r' (candidate id1 ''u1'' ''p1'' 80 2)))"
proof -
  let ?t = "[candidate id1 ''u1'' ''p1'' 80 2]"
  let ?c = "candidate id3 ''u1'' ''p1'' 80 3"
  have 0: "excluded_row (entry id3 ''u1'' ''p1'' 80 3) = Inr ?c" by code_simp
  have 1: "stored ?t ''u1'' ''p1'' = Some (candidate id1 ''u1'' ''p1'' 80 2)"
    by (simp add: stored_def candidate_def)
  have 2: "user_id ?c = ''u1''" "problem_id ?c = ''p1''"
    by (simp_all add: candidate_def)
  have 3: "score ?c = score (candidate id1 ''u1'' ''p1'' 80 2)
      \<and> \<not> earlier (timestamp ?c) (timestamp (candidate id1 ''u1'' ''p1'' 80 2))"
    by (simp add: candidate_def)
  from no_regression [of "entry id3 ''u1'' ''p1'' 80 3" ?c ?t "candidate id1 ''u1'' ''p1'' 80 2"
      "''u1''" "''p1''" "[entry id3 ''u1'' ''p1'' 80 3, entry id5 ''u1'' ''p1'' 90 5]"] 0 1 3
  show ?thesis unfolding 2 by blast
qed

section \<open>Applying a candidate twice\<close>

text \<open>
  Claim C8, as the code has it. A second call with the same candidate leaves the table
  exactly as the first call left it and returns what the first call returned:
  \<^verbatim>\<open>{"success": True}\<close> after a first call that succeeded, the same failure after
  one that failed.
\<close>

theorem second_application:
  "save_submission (snd (save_submission t e)) e = save_submission t e"
proof (cases rule: save_submission_cases [where t = t and e = e])
  case (rejected_values err)
  then show ?thesis by simp
next
  case (conflict c r)
  let ?r' = "if strictly_better c r then do_update_set c r else r"
  have s: "stored (on_conflict_do_update c r t) (user_id c) (problem_id c) = Some ?r'"
    by (rule stored_on_conflict_same [OF conflict(2)])
  have "\<not> strictly_better c ?r'"
    by (simp add: not_strictly_better_same_key do_update_set_def)
  then have "on_conflict_do_update c ?r' (on_conflict_do_update c r t) = on_conflict_do_update c r t"
    by (rule on_conflict_unchanged)
  with save_submission_conflict [OF conflict(1) s] conflict(3) show ?thesis by simp
next
  case (violation c)
  then show ?thesis by simp
next
  case (inserted c)
  have s: "stored (t @ [c]) (user_id c) (problem_id c) = Some c"
    using inserted(2) by (simp add: stored_append)
  have "\<not> strictly_better c c" by (simp add: not_strictly_better_same_key)
  then have "on_conflict_do_update c c (t @ [c]) = t @ [c]" by (rule on_conflict_unchanged)
  with save_submission_conflict [OF inserted(1) s] inserted(4) show ?thesis by simp
qed

theorem second_application_witness:
  "save_submission [] (entry id1 ''u1'' ''p1'' 50 1) = (Success, [candidate id1 ''u1'' ''p1'' 50 1])
   \<and> save_submission [candidate id1 ''u1'' ''p1'' 50 1] (entry id1 ''u1'' ''p1'' 50 1)
       = (Success, [candidate id1 ''u1'' ''p1'' 50 1])"
proof -
  have 1: "save_submission [] (entry id1 ''u1'' ''p1'' 50 1)
      = (Success, [candidate id1 ''u1'' ''p1'' 50 1])"
    by code_simp
  from second_application [of "[]" "entry id1 ''u1'' ''p1'' 50 1"]
  show ?thesis unfolding 1 by simp
qed

text \<open>
  The second call does not result in a value of its own: after the first call inserted
  the candidate, the second one writes nothing and returns the value that the first
  returned; and after a first call that failed, the second one fails.
\<close>

theorem second_application_counterexample:
  "fst (save_submission [] (entry id1 ''u1'' ''p1'' 50 1)) = Success
   \<and> snd (save_submission [] (entry id1 ''u1'' ''p1'' 50 1)) \<noteq> []
   \<and> save_submission (snd (save_submission [] (entry id1 ''u1'' ''p1'' 50 1)))
        (entry id1 ''u1'' ''p1'' 50 1)
       = (Success, snd (save_submission [] (entry id1 ''u1'' ''p1'' 50 1)))
   \<and> save_submission (snd (save_submission [] (entry id1 (replicate 51 CHR ''u'') ''p1'' 50 1)))
        (entry id1 (replicate 51 CHR ''u'') ''p1'' 50 1)
       = (Failure StringDataRightTruncation, [])"
  by code_simp

section \<open>Candidates for one pair, in any order\<close>

lemma save_all_from_stored:
  assumes "stored t u p = Some r0" and "timestamp r0 \<noteq> None"
    and "map excluded_row es = map Inr cs"
    and "\<forall>c \<in> set cs. user_id c = u \<and> problem_id c = p \<and> timestamp c \<noteq> None"
  shows "\<exists>r x. stored (save_all t es) u p = Some r
           \<and> submission_id r = submission_id r0
           \<and> x \<in> insert r0 (set cs)
           \<and> score r = score x \<and> replay_result r = replay_result x
           \<and> timestamp r = timestamp x \<and> error_details r = error_details x
           \<and> (\<forall>y \<in> insert r0 (set cs). \<not> strictly_better y x)"
  using assms
proof (induction cs arbitrary: es t r0)
  case Nil
  then show ?case by (auto simp: strictly_better_irrefl)
next
  case (Cons c cs)
  from Cons.prems(3) obtain e es2 where es: "es = e # es2"
    and be: "excluded_row e = Inr c" and bes: "map excluded_row es2 = map Inr cs"
    by (auto simp: map_eq_Cons_conv)
  from Cons.prems(4) have c: "user_id c = u" "problem_id c = p" "timestamp c \<noteq> None"
    and rest: "\<forall>c \<in> set cs. user_id c = u \<and> problem_id c = p \<and> timestamp c \<noteq> None"
    by simp_all
  define r1 where "r1 = (if strictly_better c r0 then do_update_set c r0 else r0)"
  define t1 where "t1 = snd (save_submission t e)"
  from Cons.prems(1) c have sc: "stored t (user_id c) (problem_id c) = Some r0" by simp
  have st1: "stored t1 u p = Some r1"
    using stored_on_conflict_same [OF sc] c
    by (simp add: t1_def r1_def save_submission_conflict [OF be sc])
  have ts1: "timestamp r1 \<noteq> None"
    using Cons.prems(2) c by (simp add: r1_def do_update_set_def)
  have id1: "submission_id r1 = submission_id r0"
    by (simp add: r1_def do_update_set_def)
  from Cons.IH [OF st1 ts1 bes rest] obtain r x
    where fin: "stored (save_all t1 es2) u p = Some r"
      and idr: "submission_id r = submission_id r1"
      and xin: "x \<in> insert r1 (set cs)"
      and fields: "score r = score x" "replay_result r = replay_result x"
        "timestamp r = timestamp x" "error_details r = error_details x"
      and best: "\<forall>y \<in> insert r1 (set cs). \<not> strictly_better y x"
    by blast
  have fin': "stored (save_all t es) u p = Some r"
    using fin by (simp add: t1_def es)
  show ?case
  proof (cases "strictly_better c r0")
    case True
    then have r1c: "score r1 = score c" "replay_result r1 = replay_result c"
      "timestamp r1 = timestamp c" "error_details r1 = error_details c"
      by (simp_all add: r1_def do_update_set_def)
    define x' where "x' = (if x = r1 then c else x)"
    have x'in: "x' \<in> insert r0 (set (c # cs))"
      using xin by (auto simp: x'_def)
    have x'f: "score x' = score x" "replay_result x' = replay_result x"
      "timestamp x' = timestamp x" "error_details x' = error_details x"
      using r1c by (simp_all add: x'_def)
    have nc: "\<not> strictly_better c x"
      using best r1c strictly_better_cong [of c r1 x x] by simp
    have n0: "\<not> strictly_better r0 x"
      using nc True strictly_better_trans [of c r0 x] by blast
    have "\<forall>y \<in> insert r0 (set (c # cs)). \<not> strictly_better y x"
      using best nc n0 by simp
    then have "\<forall>y \<in> insert r0 (set (c # cs)). \<not> strictly_better y x'"
      using x'f strictly_better_cong [of _ _ x' x] by blast
    with fin' idr id1 x'in x'f fields show ?thesis
      by (intro exI [of _ r] exI [of _ x']) simp
  next
    case False
    then have r10: "r1 = r0" by (simp add: r1_def)
    from xin r10 have xin': "x \<in> insert r0 (set (c # cs))" by auto
    have xts: "timestamp x \<noteq> None"
      using xin r10 Cons.prems(2) rest by auto
    from best r10 have n0: "\<not> strictly_better r0 x" by simp
    have nc: "\<not> strictly_better c x"
    proof
      assume cx: "strictly_better c x"
      show False
      proof (cases "strictly_better x r0")
        case True
        with cx have "strictly_better c r0" by (rule strictly_better_trans)
        with False show False by contradiction
      next
        case nx: False
        from strictly_better_trichotomy [OF xts Cons.prems(2) nx n0]
        have "strictly_better c x = strictly_better c r0"
          by (intro strictly_better_cong) simp_all
        with cx False show False by simp
      qed
    qed
    have "\<forall>y \<in> insert r0 (set (c # cs)). \<not> strictly_better y x"
      using best r10 nc by simp
    with fin' idr id1 xin' fields show ?thesis
      by (intro exI [of _ r] exI [of _ x]) simp
  qed
qed

lemma save_all_from_none:
  assumes "stored t u p = None" and "cs \<noteq> []"
    and "map excluded_row es = map Inr cs"
    and "\<forall>c \<in> set cs. user_id c = u \<and> problem_id c = p \<and> timestamp c \<noteq> None
           \<and> submission_id c \<notin> set (map submission_id t)"
  shows "\<exists>r x. stored (save_all t es) u p = Some r
           \<and> submission_id r = submission_id (hd cs)
           \<and> x \<in> set cs
           \<and> score r = score x \<and> replay_result r = replay_result x
           \<and> timestamp r = timestamp x \<and> error_details r = error_details x
           \<and> (\<forall>y \<in> set cs. \<not> strictly_better y x)"
proof -
  from assms(2) obtain c rest where cs: "cs = c # rest" by (cases cs) auto
  with assms(3) obtain e es2 where es: "es = e # es2"
    and be: "excluded_row e = Inr c" and bes: "map excluded_row es2 = map Inr rest"
    by (auto simp: map_eq_Cons_conv)
  from cs assms(4) have c: "user_id c = u" "problem_id c = p" "timestamp c \<noteq> None"
    "submission_id c \<notin> set (map submission_id t)"
    and rest: "\<forall>c \<in> set rest. user_id c = u \<and> problem_id c = p \<and> timestamp c \<noteq> None"
    by simp_all
  from assms(1) c have "stored t (user_id c) (problem_id c) = None" by simp
  with c(4) be have ins: "save_submission t e = (Success, t @ [c])"
    by (simp add: save_submission_insert)
  have st: "stored (t @ [c]) u p = Some c"
    using assms(1) c by (simp add: stored_append)
  from save_all_from_stored [OF st c(3) bes rest] ins cs es show ?thesis by simp
qed

text \<open>
  Claim C3, as the code has it. Candidates for one \<^verbatim>\<open>(user_id, problem_id)\<close>, whose
  values fit the columns (their rows are \<open>cs\<close>), with timestamps and with ids that no
  stored row has, are applied one after another to a table without a row for the pair.
  In every order the stored row ends with the score and the timestamp of a candidate
  that is maximal under I2 (no candidate is strictly better), and with the
  replay\_result and error\_details of such a candidate; its \<^verbatim>\<open>id\<close> is the id of the
  candidate applied first.
\<close>

theorem final_record_any_order:
  assumes "stored t u p = None" and "cs \<noteq> []"
    and "map excluded_row es = map Inr cs" and "map excluded_row es' = map Inr cs'"
    and "mset cs' = mset cs"
    and "\<forall>c \<in> set cs. user_id c = u \<and> problem_id c = p \<and> timestamp c \<noteq> None
           \<and> submission_id c \<notin> set (map submission_id t)"
  shows "\<exists>r r' x. stored (save_all t es) u p = Some r
           \<and> stored (save_all t es') u p = Some r'
           \<and> score r' = score r \<and> timestamp r' = timestamp r
           \<and> x \<in> set cs \<and> (\<forall>y \<in> set cs. \<not> strictly_better y x)
           \<and> score r = score x \<and> replay_result r = replay_result x
           \<and> timestamp r = timestamp x \<and> error_details r = error_details x
           \<and> submission_id r = submission_id (hd cs)
           \<and> submission_id r' = submission_id (hd cs')"
proof -
  from assms(5) have sets: "set cs' = set cs" by (rule mset_eq_setD)
  with assms(2) have ne: "cs' \<noteq> []" by auto
  from save_all_from_none [OF assms(1,2,3,6)] obtain r x
    where r: "stored (save_all t es) u p = Some r" "submission_id r = submission_id (hd cs)"
      and x: "x \<in> set cs" "score r = score x" "replay_result r = replay_result x"
        "timestamp r = timestamp x" "error_details r = error_details x"
      and bx: "\<forall>y \<in> set cs. \<not> strictly_better y x"
    by blast
  from assms(6) sets
  have "\<forall>c \<in> set cs'. user_id c = u \<and> problem_id c = p \<and> timestamp c \<noteq> None
           \<and> submission_id c \<notin> set (map submission_id t)" by simp
  from save_all_from_none [OF assms(1) ne assms(4) this] sets obtain r' x'
    where r': "stored (save_all t es') u p = Some r'" "submission_id r' = submission_id (hd cs')"
      and x': "x' \<in> set cs" "score r' = score x'" "timestamp r' = timestamp x'"
      and bx': "\<forall>y \<in> set cs. \<not> strictly_better y x'"
    by auto
  from x(1) x'(1) assms(6) have ts: "timestamp x' \<noteq> None" "timestamp x \<noteq> None" by auto
  from bx x'(1) have n1: "\<not> strictly_better x' x" by simp
  from bx' x(1) have n2: "\<not> strictly_better x x'" by simp
  from ts n1 n2 have "score x' = score x \<and> timestamp x' = timestamp x"
    by (rule strictly_better_trichotomy)
  with r r' x x' bx show ?thesis
    by (intro exI [of _ r] exI [of _ r'] exI [of _ x]) simp
qed

theorem final_record_any_order_witness:
  "stored [] ''u2'' ''p1'' = None
   \<and> map excluded_row [entry id1 ''u2'' ''p1'' 60 5, entry id2 ''u2'' ''p1'' 60 3]
       = map Inr [candidate id1 ''u2'' ''p1'' 60 5, candidate id2 ''u2'' ''p1'' 60 3]
   \<and> mset [candidate id2 ''u2'' ''p1'' 60 3, candidate id1 ''u2'' ''p1'' 60 5]
       = mset [candidate id1 ''u2'' ''p1'' 60 5, candidate id2 ''u2'' ''p1'' 60 3]
   \<and> (\<exists>r r'. stored (save_all [] [entry id1 ''u2'' ''p1'' 60 5,
                                 entry id2 ''u2'' ''p1'' 60 3]) ''u2'' ''p1'' = Some r
         \<and> stored (save_all [] [entry id2 ''u2'' ''p1'' 60 3,
                                 entry id1 ''u2'' ''p1'' 60 5]) ''u2'' ''p1'' = Some r'
         \<and> score r' = score r \<and> timestamp r' = timestamp r
         \<and> submission_id r = id1 \<and> submission_id r' = id2)"
proof -
  let ?a = "candidate id1 ''u2'' ''p1'' 60 5"
  let ?b = "candidate id2 ''u2'' ''p1'' 60 3"
  let ?ea = "entry id1 ''u2'' ''p1'' 60 5"
  let ?eb = "entry id2 ''u2'' ''p1'' 60 3"
  have 1: "stored [] ''u2'' ''p1'' = None" by (simp add: stored_def)
  have 2: "[?a, ?b] \<noteq> []" by simp
  have ba: "excluded_row ?ea = Inr ?a" and bb: "excluded_row ?eb = Inr ?b" by code_simp+
  then have 3: "map excluded_row [?ea, ?eb] = map Inr [?a, ?b]"
    and 7: "map excluded_row [?eb, ?ea] = map Inr [?b, ?a]" by simp_all
  have 4: "mset [?b, ?a] = mset [?a, ?b]" by simp
  have 5: "\<forall>c \<in> set [?a, ?b]. user_id c = ''u2'' \<and> problem_id c = ''p1''
      \<and> timestamp c \<noteq> None \<and> submission_id c \<notin> set (map submission_id [])"
    by (simp add: candidate_def)
  have 6: "submission_id (hd [?a, ?b]) = id1" "submission_id (hd [?b, ?a]) = id2"
    by (simp_all add: candidate_def)
  from final_record_any_order [OF 1 2 3 7 4 5] 1 3 4 show ?thesis
    unfolding 6 by blast
qed

text \<open>
  The final row itself depends on the order, and it need not be one of the candidates:
  with 50 applied before 80 the row holds 80 under the id of the submission that scored
  50, in the other order under the id of the one that scored 80.
\<close>

theorem final_record_depends_on_order_counterexample:
  "stored (save_all [] [entry id1 ''u1'' ''p1'' 50 1, entry id2 ''u1'' ''p1'' 80 2])
      ''u1'' ''p1'' = Some (candidate id1 ''u1'' ''p1'' 80 2)
   \<and> stored (save_all [] [entry id2 ''u1'' ''p1'' 80 2, entry id1 ''u1'' ''p1'' 50 1])
      ''u1'' ''p1'' = Some (candidate id2 ''u1'' ''p1'' 80 2)
   \<and> candidate id1 ''u1'' ''p1'' 80 2 \<noteq> candidate id2 ''u1'' ''p1'' 80 2"
  by code_simp

section \<open>Facts about the order and the sort\<close>

lemma nulls_last_le_refl: "nulls_last_le a a"
  by (cases a) simp_all

lemma nulls_last_le_trans: "nulls_last_le a b \<Longrightarrow> nulls_last_le b c \<Longrightarrow> nulls_last_le a c"
  by (cases a; cases b; cases c) simp_all

lemma nulls_last_le_total: "nulls_last_le a b \<or> nulls_last_le b a"
  by (cases a; cases b) auto

lemma order_le_refl: "order_le k k"
  by (simp add: order_le_def nulls_last_le_refl)

lemma order_le_trans:
  assumes "order_le a b" and "order_le b c"
  shows "order_le a c"
proof (cases "fst a = fst b \<and> fst b = fst c")
  case True
  with assms have "nulls_last_le (snd a) (snd b)" and "nulls_last_le (snd b) (snd c)"
    by (simp_all add: order_le_def)
  then have "nulls_last_le (snd a) (snd c)" by (rule nulls_last_le_trans)
  with True show ?thesis by (simp add: order_le_def)
next
  case False
  with assms have "fst a > fst c" by (auto simp: order_le_def)
  then show ?thesis by (simp add: order_le_def)
qed

lemma order_le_total: "order_le a b \<or> order_le b a"
  using nulls_last_le_total [of "snd a" "snd b"] by (auto simp: order_le_def)

lemma set_insert_ordered: "set (insert_ordered k x ys) = insert x (set ys)"
  by (induction ys) auto

lemma set_order_by: "set (order_by k xs) = set xs"
  by (induction xs) (auto simp: set_insert_ordered)

lemma sorted_insert_ordered:
  "sorted_wrt (\<lambda>a b. order_le (k a) (k b)) ys \<Longrightarrow>
   sorted_wrt (\<lambda>a b. order_le (k a) (k b)) (insert_ordered k x ys)"
proof (induction ys)
  case Nil
  then show ?case by simp
next
  case (Cons y ys)
  from Cons.prems have tail: "sorted_wrt (\<lambda>a b. order_le (k a) (k b)) ys"
    and head: "\<forall>z \<in> set ys. order_le (k y) (k z)" by simp_all
  show ?case
  proof (cases "order_le (k x) (k y)")
    case True
    have "\<forall>z \<in> set ys. order_le (k x) (k z)"
      using True head order_le_trans by blast
    with True Cons.prems show ?thesis by simp
  next
    case False
    then have "order_le (k y) (k x)" using order_le_total by blast
    with head have "\<forall>z \<in> set (insert_ordered k x ys). order_le (k y) (k z)"
      by (simp add: set_insert_ordered)
    with False Cons.IH [OF tail] show ?thesis by simp
  qed
qed

lemma sorted_order_by: "sorted_wrt (\<lambda>a b. order_le (k a) (k b)) (order_by k xs)"
  by (induction xs) (simp_all add: sorted_insert_ordered)

lemma hd_order_by_least:
  assumes "z \<in> set xs"
  shows "order_le (k (hd (order_by k xs))) (k z)"
proof -
  from assms have "z \<in> set (order_by k xs)" by (simp add: set_order_by)
  then obtain h rest where s: "order_by k xs = h # rest" by (cases "order_by k xs") auto
  have "sorted_wrt (\<lambda>a b. order_le (k a) (k b)) (h # rest)"
    using sorted_order_by [of k xs] by (simp add: s)
  then have "\<forall>y \<in> set rest. order_le (k h) (k y)" by simp
  moreover from \<open>z \<in> set (order_by k xs)\<close> s have "z = h \<or> z \<in> set rest" by simp
  ultimately show ?thesis using order_le_refl [of "k h"] s by auto
qed

section \<open>Facts about the query\<close>

lemma truncate_fields:
  "submission_id (leaderboard_entry.truncate r) = submission_id r"
  "user_id (leaderboard_entry.truncate r) = user_id r"
  "problem_id (leaderboard_entry.truncate r) = problem_id r"
  "score (leaderboard_entry.truncate r) = score r"
  "replay_result (leaderboard_entry.truncate r) = replay_result r"
  "timestamp (leaderboard_entry.truncate r) = timestamp r"
  by (simp_all add: leaderboard_entry.truncate_def)

lemma order_key_truncate: "order_key (leaderboard_entry.truncate r) = order_key r"
  by (simp add: order_key_def truncate_fields)

lemma same_partition_trans_filter:
  "same_partition h x \<Longrightarrow>
   filter (\<lambda>y. same_partition y h) rows = filter (\<lambda>y. same_partition y x) rows"
  by (rule filter_cong) (auto simp: same_partition_def)

lemma row_number_first:
  assumes "x \<in> set rows"
  defines "h \<equiv> hd (order_by (order_key \<circ> snd) (filter (\<lambda>y. same_partition y x) rows))"
  shows "h \<in> set rows" and "same_partition h x" and "row_number rows h = 1"
    and "order_le (order_key (snd h)) (order_key (snd x))"
proof -
  let ?P = "filter (\<lambda>y. same_partition y x) rows"
  let ?S = "order_by (order_key \<circ> snd) ?P"
  from assms(1) have xP: "x \<in> set ?P" by (simp add: same_partition_def)
  then have "?S \<noteq> []" using set_order_by [of "order_key \<circ> snd" ?P] by auto
  then have hS: "?S = h # tl ?S" by (simp add: h_def)
  then have "h \<in> set ?S" by (metis list.set_intros(1))
  then have hP: "h \<in> set ?P" by (simp add: set_order_by)
  then show 1: "h \<in> set rows" and 2: "same_partition h x" by simp_all
  from same_partition_trans_filter [OF 2]
  have "row_number rows h = Suc (length (takeWhile (\<lambda>y. y \<noteq> h) ?S))"
    by (simp add: row_number_def)
  also have "\<dots> = 1" by (subst hS) simp
  finally show "row_number rows h = 1" .
  from hd_order_by_least [OF xP, of "order_key \<circ> snd"]
  show "order_le (order_key (snd h)) (order_key (snd x))" by (simp add: h_def)
qed

lemma snd_enumerate_in: "x \<in> set (enumerate n t) \<Longrightarrow> snd x \<in> set t"
proof -
  assume "x \<in> set (enumerate n t)"
  then have "snd x \<in> set (map snd (enumerate n t))" by (simp only: set_map image_eqI)
  then show ?thesis by (simp only: map_snd_enumerate)
qed

lemma enumerate_covers: "r \<in> set t \<Longrightarrow> \<exists>x \<in> set (enumerate n t). snd x = r"
proof -
  assume "r \<in> set t"
  then obtain i where "i < length t" and "t ! i = r" by (auto simp: in_set_conv_nth)
  then have "(n + i, r) \<in> set (enumerate n t)" by (simp add: in_set_enumerate_eq)
  then show ?thesis by force
qed

lemma set_submissions_by_problem:
  "set (submissions_by_problem t) \<subseteq> leaderboard_entry.truncate ` set t"
proof
  fix e assume "e \<in> set (submissions_by_problem t)"
  then obtain x where "x \<in> set (enumerate 0 t)" and "e = leaderboard_entry.truncate (snd x)"
    by (auto simp: submissions_by_problem_def subquery_t_def set_order_by Let_def)
  then show "e \<in> leaderboard_entry.truncate ` set t"
    using snd_enumerate_in by blast
qed

lemma submissions_by_problem_covers:
  assumes "r \<in> set t"
  shows "\<exists>r' \<in> set t. leaderboard_entry.truncate r' \<in> set (submissions_by_problem t)
           \<and> user_id r' = user_id r \<and> problem_id r' = problem_id r
           \<and> order_le (order_key r') (order_key r)"
proof -
  let ?rows = "enumerate 0 t"
  from enumerate_covers [OF assms, of 0] obtain x where x: "x \<in> set ?rows" "snd x = r"
    by blast
  define h where "h = hd (order_by (order_key \<circ> snd) (filter (\<lambda>y. same_partition y x) ?rows))"
  from row_number_first [OF x(1)]
  have h: "h \<in> set ?rows" "same_partition h x" "row_number ?rows h = 1"
    "order_le (order_key (snd h)) (order_key (snd x))"
    by (simp_all add: h_def)
  from h(1) have "snd h \<in> set t" by (rule snd_enumerate_in)
  moreover from h(1,3) have "leaderboard_entry.truncate (snd h) \<in> set (submissions_by_problem t)"
    by (force simp: submissions_by_problem_def subquery_t_def set_order_by Let_def)
  ultimately show ?thesis using h(2,4) x(2) by (auto simp: same_partition_def)
qed

lemma sorted_submissions_by_problem:
  "sorted_wrt (\<lambda>a b. order_le (order_key a) (order_key b)) (submissions_by_problem t)"
  by (simp add: submissions_by_problem_def sorted_order_by)

section \<open>Facts about the loop over the rows\<close>

lemma loop_members:
  "sorted_wrt (\<lambda>a b. order_le (order_key a) (order_key b)) es \<Longrightarrow>
   e \<in> set (fst (leaderboard_loop es (lb, seen))) \<Longrightarrow>
   e \<in> set lb \<or> (e \<in> set es \<and> user_id e \<notin> seen
      \<and> (\<forall>x \<in> set es. user_id x = user_id e \<longrightarrow> order_le (order_key e) (order_key x)))"
proof (induction es arbitrary: lb seen)
  case Nil
  then show ?case by simp
next
  case (Cons entry rest)
  from Cons.prems(1)
  have tail: "sorted_wrt (\<lambda>a b. order_le (order_key a) (order_key b)) rest"
    and head: "\<forall>x \<in> set rest. order_le (order_key entry) (order_key x)" by simp_all
  show ?case
  proof (cases "user_id entry \<in> seen")
    case True
    with Cons.prems(2) have "e \<in> set (fst (leaderboard_loop rest (lb, seen)))" by simp
    from Cons.IH [OF tail this] True show ?thesis by auto
  next
    case False
    with Cons.prems(2)
    have "e \<in> set (fst (leaderboard_loop rest (lb @ [entry], insert (user_id entry) seen)))"
      by simp
    from Cons.IH [OF tail this]
    consider "e \<in> set lb" | "e = entry"
      | "e \<in> set rest" "user_id e \<noteq> user_id entry" "user_id e \<notin> seen"
        "\<forall>x \<in> set rest. user_id x = user_id e \<longrightarrow> order_le (order_key e) (order_key x)"
      by auto
    then show ?thesis
    proof cases
      case 1
      then show ?thesis by simp
    next
      case 2
      with False head order_le_refl [of "order_key entry"] show ?thesis by auto
    next
      case 3
      then show ?thesis by auto
    qed
  qed
qed

lemma loop_users:
  "seen = user_id ` set lb \<Longrightarrow>
   user_id ` set (fst (leaderboard_loop es (lb, seen))) = user_id ` (set lb \<union> set es)"
proof (induction es arbitrary: lb seen)
  case Nil
  then show ?case by simp
next
  case (Cons entry rest)
  show ?case
  proof (cases "user_id entry \<in> seen")
    case True
    with Cons.IH [OF Cons.prems] Cons.prems show ?thesis by auto
  next
    case False
    have "insert (user_id entry) seen = user_id ` set (lb @ [entry])"
      using Cons.prems by simp
    from Cons.IH [OF this] False show ?thesis by auto
  qed
qed

lemma loop_distinct:
  "seen = user_id ` set lb \<Longrightarrow> distinct (map user_id lb) \<Longrightarrow>
   distinct (map user_id (fst (leaderboard_loop es (lb, seen))))"
proof (induction es arbitrary: lb seen)
  case Nil
  then show ?case by simp
next
  case (Cons entry rest)
  show ?case
  proof (cases "user_id entry \<in> seen")
    case True
    with Cons.IH [OF Cons.prems] show ?thesis by simp
  next
    case False
    have 1: "insert (user_id entry) seen = user_id ` set (lb @ [entry])"
      using Cons.prems(1) by simp
    have 2: "distinct (map user_id (lb @ [entry]))"
      using Cons.prems False by simp
    from Cons.IH [OF 1 2] False show ?thesis by simp
  qed
qed

lemma loop_sorted:
  "sorted_wrt R (lb @ es) \<Longrightarrow> sorted_wrt R (fst (leaderboard_loop es (lb, seen)))"
proof (induction es arbitrary: lb seen)
  case Nil
  then show ?case by simp
next
  case (Cons entry rest)
  show ?case
  proof (cases "user_id entry \<in> seen")
    case True
    from Cons.prems have "sorted_wrt R (lb @ rest)"
      by (auto simp: sorted_wrt_append)
    from Cons.IH [OF this] True show ?thesis by simp
  next
    case False
    from Cons.prems have "sorted_wrt R ((lb @ [entry]) @ rest)" by simp
    from Cons.IH [OF this] False show ?thesis by simp
  qed
qed

lemma users_submissions_by_problem:
  "user_id ` set (submissions_by_problem t) = user_id ` set t"
proof
  show "user_id ` set (submissions_by_problem t) \<subseteq> user_id ` set t"
    using set_submissions_by_problem [of t] by (auto simp: truncate_fields)
next
  show "user_id ` set t \<subseteq> user_id ` set (submissions_by_problem t)"
  proof
    fix u assume "u \<in> user_id ` set t"
    then obtain r where "r \<in> set t" and "u = user_id r" by auto
    from submissions_by_problem_covers [OF this(1)] obtain r' :: submission
      where "leaderboard_entry.truncate r' \<in> set (submissions_by_problem t)"
        and "user_id r' = user_id r" by blast
    then have "user_id (leaderboard_entry.truncate r') \<in> user_id ` set (submissions_by_problem t)"
      by (intro imageI)
    with \<open>user_id r' = user_id r\<close> \<open>u = user_id r\<close>
    show "u \<in> user_id ` set (submissions_by_problem t)" by (simp add: truncate_fields)
  qed
qed

lemma leaderboard_entry_is_best:
  assumes "e \<in> set (get_leaderboard_data t)"
  shows "\<exists>r \<in> set t. e = leaderboard_entry.truncate r
           \<and> (\<forall>r' \<in> set t. user_id r' = user_id r \<longrightarrow> order_le (order_key r) (order_key r'))"
proof -
  from assms loop_members [OF sorted_submissions_by_problem, of e t "[]" "{}"]
  have e: "e \<in> set (submissions_by_problem t)"
    and least: "\<forall>x \<in> set (submissions_by_problem t).
        user_id x = user_id e \<longrightarrow> order_le (order_key e) (order_key x)"
    by (simp_all add: get_leaderboard_data_def)
  from e set_submissions_by_problem [of t] obtain r
    where r: "r \<in> set t" "e = leaderboard_entry.truncate r" by auto
  have "\<forall>r' \<in> set t. user_id r' = user_id r \<longrightarrow> order_le (order_key r) (order_key r')"
  proof (intro ballI impI)
    fix r' assume "r' \<in> set t" and u: "user_id r' = user_id r"
    from submissions_by_problem_covers [OF this(1)] obtain q :: submission
      where q: "leaderboard_entry.truncate q \<in> set (submissions_by_problem t)"
        "user_id q = user_id r'" "order_le (order_key q) (order_key r')" by blast
    from least q(1,2) u r(2)
    have "order_le (order_key e) (order_key (leaderboard_entry.truncate q))"
      by (simp add: truncate_fields)
    then have "order_le (order_key r) (order_key q)"
      by (simp add: r(2) order_key_truncate)
    from this q(3) show "order_le (order_key r) (order_key r')" by (rule order_le_trans)
  qed
  with r show ?thesis by blast
qed

section \<open>The leaderboard\<close>

text \<open>
  Scenario B of the specification, with a second user: \<open>u1\<close> has 90 on \<open>p1\<close> and 70 on
  \<open>p2\<close>, \<open>u2\<close> has 80 on \<open>p1\<close>.
\<close>

lemma scenario_B_leaderboard:
  "get_leaderboard_data [candidate id1 ''u1'' ''p1'' 90 1, candidate id2 ''u1'' ''p2'' 70 2,
      candidate id3 ''u2'' ''p1'' 80 3]
   = [leaderboard_entry.truncate (candidate id1 ''u1'' ''p1'' 90 1),
      leaderboard_entry.truncate (candidate id3 ''u2'' ''p1'' 80 3)]"
  by code_simp

text \<open>
  Claim C2. For every table, \<^verbatim>\<open>get_leaderboard_data\<close> returns one entry for each
  user with a stored row and no other entry, no user twice; each entry is the
  selected columns of a stored row of that user than which no row of the user has a
  higher score, or the same score and an earlier timestamp (among equal scores a NULL
  timestamp counts as the latest): one row of the user, not a sum over the user's rows;
  and the entries stand by score descending, then timestamp ascending.
\<close>

theorem leaderboard_best_per_user:
  "distinct (map user_id (get_leaderboard_data t))
   \<and> user_id ` set (get_leaderboard_data t) = user_id ` set t
   \<and> (\<forall>e \<in> set (get_leaderboard_data t). \<exists>r \<in> set t. e = leaderboard_entry.truncate r
        \<and> (\<forall>r' \<in> set t. user_id r' = user_id r \<longrightarrow>
              score r' < score r
              \<or> (score r = score r' \<and> nulls_last_le (timestamp r) (timestamp r'))))
   \<and> sorted_wrt (\<lambda>a b. score b < score a
                     \<or> (score a = score b \<and> nulls_last_le (timestamp a) (timestamp b)))
        (get_leaderboard_data t)"
proof (intro conjI ballI)
  show "distinct (map user_id (get_leaderboard_data t))"
    using loop_distinct [of "{}" "[]"] by (simp add: get_leaderboard_data_def)
  show "user_id ` set (get_leaderboard_data t) = user_id ` set t"
    using loop_users [of "{}" "[]" "submissions_by_problem t"]
    by (simp add: get_leaderboard_data_def users_submissions_by_problem)
  have "sorted_wrt (\<lambda>a b. order_le (order_key a) (order_key b)) (get_leaderboard_data t)"
    using loop_sorted [of _ "[]" "submissions_by_problem t" "{}"] sorted_submissions_by_problem [of t]
    by (simp add: get_leaderboard_data_def)
  then show "sorted_wrt (\<lambda>a b. score b < score a
                     \<or> (score a = score b \<and> nulls_last_le (timestamp a) (timestamp b)))
        (get_leaderboard_data t)"
    by (simp add: order_le_def order_key_def)
next
  fix e assume "e \<in> set (get_leaderboard_data t)"
  from leaderboard_entry_is_best [OF this]
  show "\<exists>r \<in> set t. e = leaderboard_entry.truncate r
        \<and> (\<forall>r' \<in> set t. user_id r' = user_id r \<longrightarrow>
              score r' < score r
              \<or> (score r = score r' \<and> nulls_last_le (timestamp r) (timestamp r')))"
    by (simp add: order_le_def order_key_def)
qed

theorem leaderboard_best_per_user_witness:
  "get_leaderboard_data [candidate id1 ''u1'' ''p1'' 90 1, candidate id2 ''u1'' ''p2'' 70 2,
      candidate id3 ''u2'' ''p1'' 80 3]
     = [leaderboard_entry.truncate (candidate id1 ''u1'' ''p1'' 90 1),
        leaderboard_entry.truncate (candidate id3 ''u2'' ''p1'' 80 3)]
   \<and> map score (get_leaderboard_data [candidate id1 ''u1'' ''p1'' 90 1,
        candidate id2 ''u1'' ''p2'' 70 2, candidate id3 ''u2'' ''p1'' 80 3]) = [90, 80]
   \<and> distinct (map user_id (get_leaderboard_data [candidate id1 ''u1'' ''p1'' 90 1,
        candidate id2 ''u1'' ''p2'' 70 2, candidate id3 ''u2'' ''p1'' 80 3]))
   \<and> (\<exists>r \<in> set [candidate id1 ''u1'' ''p1'' 90 1, candidate id2 ''u1'' ''p2'' 70 2,
                  candidate id3 ''u2'' ''p1'' 80 3].
         leaderboard_entry.truncate (candidate id1 ''u1'' ''p1'' 90 1) = leaderboard_entry.truncate r
         \<and> (\<forall>r' \<in> set [candidate id1 ''u1'' ''p1'' 90 1, candidate id2 ''u1'' ''p2'' 70 2,
                  candidate id3 ''u2'' ''p1'' 80 3]. user_id r' = user_id r \<longrightarrow>
               score r' < score r
               \<or> (score r = score r' \<and> nulls_last_le (timestamp r) (timestamp r'))))"
proof -
  let ?t = "[candidate id1 ''u1'' ''p1'' 90 1, candidate id2 ''u1'' ''p2'' 70 2,
      candidate id3 ''u2'' ''p1'' 80 3]"
  have ev: "get_leaderboard_data ?t
     = [leaderboard_entry.truncate (candidate id1 ''u1'' ''p1'' 90 1),
        leaderboard_entry.truncate (candidate id3 ''u2'' ''p1'' 80 3)]"
    by (rule scenario_B_leaderboard)
  then have mem: "leaderboard_entry.truncate (candidate id1 ''u1'' ''p1'' 90 1)
      \<in> set (get_leaderboard_data ?t)" by simp
  have sc: "map score (get_leaderboard_data ?t) = [90, 80]"
    unfolding ev by (simp add: truncate_fields candidate_def)
  from leaderboard_best_per_user [of ?t] mem ev sc show ?thesis by blast
qed

text \<open>
  Claim C9. For every table, no two entries that \<^verbatim>\<open>get_leaderboard_data\<close> returns
  have the same \<^verbatim>\<open>user_id\<close>.
\<close>

theorem leaderboard_one_entry_per_user:
  "distinct (map user_id (get_leaderboard_data t))"
  using loop_distinct [of "{}" "[]"] by (simp add: get_leaderboard_data_def)

theorem leaderboard_one_entry_per_user_witness:
  "map user_id (get_leaderboard_data [candidate id1 ''u1'' ''p1'' 90 1,
      candidate id2 ''u1'' ''p2'' 70 2, candidate id3 ''u2'' ''p1'' 80 3]) = [''u1'', ''u2'']
   \<and> distinct (map user_id (get_leaderboard_data [candidate id1 ''u1'' ''p1'' 90 1,
      candidate id2 ''u1'' ''p2'' 70 2, candidate id3 ''u2'' ''p1'' 80 3]))"
  using leaderboard_one_entry_per_user [of "[candidate id1 ''u1'' ''p1'' 90 1,
      candidate id2 ''u1'' ''p2'' 70 2, candidate id3 ''u2'' ''p1'' 80 3]"]
  unfolding scenario_B_leaderboard by (simp add: truncate_fields candidate_def)

section \<open>The columns of an entry\<close>

lemma insert_ordered_map:
  "insert_ordered k (f x) (map f ys) = map f (insert_ordered (k \<circ> f) x ys)"
  by (induction ys) simp_all

lemma order_by_map: "order_by k (map f xs) = map f (order_by (k \<circ> f) xs)"
  by (induction xs) (simp_all add: insert_ordered_map comp_def)

lemma enumerate_map:
  "enumerate n (map f xs) = map (\<lambda>x. (fst x, f (snd x))) (enumerate n xs)"
  by (induction xs arbitrary: n) simp_all

lemma inj_on_fst_enumerate: "inj_on fst (set (enumerate n xs))"
proof -
  have "distinct (map fst (enumerate n xs))" by (simp add: map_fst_enumerate)
  then show ?thesis by (simp only: distinct_map)
qed

lemma row_number_error_details:
  fixes g :: "submission \<Rightarrow> string list"
  defines "F \<equiv> \<lambda>x :: nat \<times> submission. (fst x, (snd x)\<lparr>error_details := g (snd x)\<rparr>)"
  assumes "x \<in> set rows" and "inj_on fst (set rows)"
  shows "row_number (map F rows) (F x) = row_number rows x"
proof -
  let ?P = "filter (\<lambda>y. same_partition y x) rows"
  let ?S = "order_by (order_key \<circ> snd) ?P"
  have sp: "\<And>y. same_partition (F y) (F x) = same_partition y x"
    by (simp add: F_def same_partition_def)
  have "filter (\<lambda>y. same_partition y (F x)) (map F rows) = map F ?P"
    by (simp add: filter_map comp_def sp)
  moreover have "(order_key \<circ> snd) \<circ> F = order_key \<circ> snd"
    by (rule ext) (simp add: F_def order_key_def)
  ultimately have sorted_part:
    "order_by (order_key \<circ> snd) (filter (\<lambda>y. same_partition y (F x)) (map F rows)) = map F ?S"
    by (simp add: order_by_map)
  have neq: "\<And>y. y \<in> set ?S \<Longrightarrow> (F y \<noteq> F x) = (y \<noteq> x)"
  proof -
    fix y assume "y \<in> set ?S"
    then have "y \<in> set rows" by (simp add: set_order_by)
    show "(F y \<noteq> F x) = (y \<noteq> x)"
    proof
      assume "F y \<noteq> F x" then show "y \<noteq> x" by auto
    next
      assume "y \<noteq> x"
      with assms(3) \<open>y \<in> set rows\<close> assms(2) have "fst y \<noteq> fst x"
        by (auto dest: inj_onD)
      then show "F y \<noteq> F x" by (simp add: F_def)
    qed
  qed
  have "takeWhile (\<lambda>y. y \<noteq> F x) (map F ?S) = map F (takeWhile (\<lambda>y. F y \<noteq> F x) ?S)"
    by (simp add: takeWhile_map comp_def)
  also have "takeWhile (\<lambda>y. F y \<noteq> F x) ?S = takeWhile (\<lambda>y. y \<noteq> x) ?S"
    by (rule takeWhile_cong) (simp_all add: neq)
  finally have tw: "takeWhile (\<lambda>y. y \<noteq> F x) (map F ?S) = map F (takeWhile (\<lambda>y. y \<noteq> x) ?S)" .
  show ?thesis unfolding row_number_def sorted_part tw by (simp only: length_map)
qed

lemma subquery_t_error_details:
  "subquery_t (map (\<lambda>r. r\<lparr>error_details := g r\<rparr>) t) = subquery_t t"
proof -
  let ?F = "\<lambda>x :: nat \<times> submission. (fst x, (snd x)\<lparr>error_details := g (snd x)\<rparr>)"
  let ?rows = "enumerate 0 t"
  have e: "enumerate 0 (map (\<lambda>r. r\<lparr>error_details := g r\<rparr>) t) = map ?F ?rows"
    by (rule enumerate_map)
  have "map (\<lambda>x. (leaderboard_entry.truncate (snd x), row_number (map ?F ?rows) x)) (map ?F ?rows)
      = map (\<lambda>x. (leaderboard_entry.truncate (snd x), row_number ?rows x)) ?rows"
    unfolding map_map
  proof (rule map_cong [OF refl])
    fix x assume "x \<in> set ?rows"
    from row_number_error_details [OF this inj_on_fst_enumerate, of g]
    show "((\<lambda>x. (leaderboard_entry.truncate (snd x), row_number (map ?F ?rows) x)) \<circ> ?F) x
        = (leaderboard_entry.truncate (snd x), row_number ?rows x)"
      by (simp add: leaderboard_entry.truncate_def)
  qed
  then show ?thesis by (simp add: subquery_t_def e Let_def)
qed

text \<open>
  Claim C10. Every entry that \<^verbatim>\<open>get_leaderboard_data\<close> returns is a dict with
  exactly the keys id, user\_id, problem\_id, score, replay\_result and timestamp; and
  the stored \<^verbatim>\<open>error_details\<close> never reaches the result: the leaderboard is the
  same whatever the rows hold in that column.
\<close>

theorem leaderboard_hides_error_details:
  "(\<forall>e \<in> set (get_leaderboard_data t).
      map fst (dict e)
        = [''id'', ''user_id'', ''problem_id'', ''score'', ''replay_result'', ''timestamp''])
   \<and> get_leaderboard_data (map (\<lambda>r. r\<lparr>error_details := g r\<rparr>) t) = get_leaderboard_data t"
  by (simp add: dict_def get_leaderboard_data_def submissions_by_problem_def
      subquery_t_error_details)

theorem leaderboard_hides_error_details_witness:
  "leaderboard_entry.truncate (candidate id1 ''u1'' ''p1'' 90 1)
     \<in> set (get_leaderboard_data [(candidate id1 ''u1'' ''p1'' 90 1)\<lparr>error_details := [''boom'']\<rparr>])
   \<and> map fst (dict (leaderboard_entry.truncate (candidate id1 ''u1'' ''p1'' 90 1)))
       = [''id'', ''user_id'', ''problem_id'', ''score'', ''replay_result'', ''timestamp'']
   \<and> get_leaderboard_data [(candidate id1 ''u1'' ''p1'' 90 1)\<lparr>error_details := []\<rparr>]
       = get_leaderboard_data [(candidate id1 ''u1'' ''p1'' 90 1)\<lparr>error_details := [''boom'']\<rparr>]"
proof -
  let ?t = "[(candidate id1 ''u1'' ''p1'' 90 1)\<lparr>error_details := [''boom'']\<rparr>]"
  have ev: "get_leaderboard_data ?t = [leaderboard_entry.truncate (candidate id1 ''u1'' ''p1'' 90 1)]"
    by code_simp
  then have mem: "leaderboard_entry.truncate (candidate id1 ''u1'' ''p1'' 90 1)
      \<in> set (get_leaderboard_data ?t)" by simp
  from leaderboard_hides_error_details [of ?t "\<lambda>_. []"] mem show ?thesis by simp
qed

end
